theory Spec2Isabelle
  imports
    Complex_Main
    "HOL-Library.Char_ord"
    "HOL-Library.List_Lexorder"
    "HOL-Library.Log_Nat"
begin

section \<open>JavaScript strings\<close>

text \<open>
  A JavaScript string is a sequence of UTF-16 code units. The model uses \<^typ>\<open>string\<close>
  and so covers the strings whose code units are below 256 (ISO 8859-1), which includes
  every literal of the program: the multiplication sign is code unit \<open>0xD7\<close> and the
  division sign is \<open>0xF7\<close>. The order on \<^typ>\<open>char\<close> is the order of the code units
  and the order on strings is the lexicographic one, which is how JavaScript compares
  strings (\<^verbatim>\<open>Array.prototype.sort\<close> without a comparator, \<^verbatim>\<open><\<close>).
\<close>

definition isWhiteSpace :: "char \<Rightarrow> bool" where
  "isWhiteSpace c \<longleftrightarrow> c \<in> set [CHR 0x09, CHR 0x0A, CHR 0x0B, CHR 0x0C, CHR 0x0D, CHR 0x20, CHR 0xA0]"

definition trimStart :: "string \<Rightarrow> string" where
  "trimStart s = dropWhile isWhiteSpace s"

definition trim :: "string \<Rightarrow> string" where
  "trim s = rev (dropWhile isWhiteSpace (rev (dropWhile isWhiteSpace s)))"

definition isUpperCase :: "char \<Rightarrow> bool" where
  "isUpperCase c \<longleftrightarrow>
     (CHR ''A'' \<le> c \<and> c \<le> CHR ''Z'') \<or> (CHR 0xC0 \<le> c \<and> c \<le> CHR 0xD6) \<or>
     (CHR 0xD8 \<le> c \<and> c \<le> CHR 0xDE)"

text \<open>In ISO 8859-1 the lower-case letter is the upper-case one with bit 5 (\<open>0x20\<close>) set.\<close>

fun setBit5 :: "char \<Rightarrow> char" where
  "setBit5 (Char b0 b1 b2 b3 b4 b5 b6 b7) = Char b0 b1 b2 b3 b4 True b6 b7"

definition lowerChar :: "char \<Rightarrow> char" where
  "lowerChar c = (if isUpperCase c then setBit5 c else c)"

definition toLowerCase :: "string \<Rightarrow> string" where
  "toLowerCase s = map lowerChar s"

definition isDigit :: "char \<Rightarrow> bool" where
  "isDigit c \<longleftrightarrow> c \<in> set ''0123456789''"

definition digitVal :: "char \<Rightarrow> nat" where
  "digitVal c = of_char c - 48"

definition digitsToNat :: "string \<Rightarrow> nat" where
  "digitsToNat ds = foldl (\<lambda>n c. 10 * n + digitVal c) 0 ds"

definition digitChar :: "nat \<Rightarrow> char" where
  "digitChar d = ''0123456789'' ! d"

text \<open>The decimal digits of a natural number, without leading zeros; \<open>0\<close> is \<open>''0''\<close>.\<close>

function natToString :: "nat \<Rightarrow> string" where
  "natToString n =
     (if n < 10 then [digitChar n] else natToString (n div 10) @ [digitChar (n mod 10)])"
  by pat_completeness auto
termination
  by (relation "measure id") auto

declare natToString.simps [simp del]

text \<open>\<^verbatim>\<open>xs.join(sep)\<close> on strings.\<close>

fun join :: "string \<Rightarrow> string list \<Rightarrow> string" where
  "join sep [] = []"
| "join sep [x] = x"
| "join sep (x # y # ys) = x @ sep @ join sep (y # ys)"

section \<open>JavaScript numbers\<close>

text \<open>
  A Number is an IEEE 754 binary64 value: not-a-number, the two infinities, the two
  zeros, or a finite non-zero value. A finite value is carried as the real number it
  denotes (\<open>Fin 0\<close> is \<open>+0\<close>); an arithmetic operation computes the exact
  result and rounds it to the nearest binary64 value, ties to even (\<open>round64\<close>).
\<close>

datatype number = NaN | PosInf | NegInf | NegZero | Fin real

definition isNaN :: "number \<Rightarrow> bool" where
  "isNaN x \<longleftrightarrow> x = NaN"

definition isFinite :: "number \<Rightarrow> bool" where
  "isFinite x \<longleftrightarrow> x \<noteq> NaN \<and> x \<noteq> PosInf \<and> x \<noteq> NegInf"

fun val :: "number \<Rightarrow> real" where
  "val (Fin q) = q"
| "val _ = 0"

fun signBit :: "number \<Rightarrow> bool" where
  "signBit NegInf = True"
| "signBit NegZero = True"
| "signBit (Fin q) = (q < 0)"
| "signBit _ = False"

definition isInf :: "number \<Rightarrow> bool" where
  "isInf x \<longleftrightarrow> x = PosInf \<or> x = NegInf"

definition isZero :: "number \<Rightarrow> bool" where
  "isZero x \<longleftrightarrow> x = NegZero \<or> x = Fin 0"

definition signedInf :: "bool \<Rightarrow> number" where
  "signedInf negative = (if negative then NegInf else PosInf)"

definition signedZero :: "bool \<Rightarrow> number" where
  "signedZero negative = (if negative then NegZero else Fin 0)"

definition pow2 :: "int \<Rightarrow> real" where
  "pow2 e = (if 0 \<le> e then 2 ^ nat e else 1 / 2 ^ nat (- e))"

definition pow10 :: "int \<Rightarrow> real" where
  "pow10 e = (if 0 \<le> e then 10 ^ nat e else 1 / 10 ^ nat (- e))"

text \<open>\<open>ilog b a\<close> is the integer \<open>e\<close> with \<open>b ^ e \<le> a < b ^ (e + 1)\<close>, for \<open>0 < a\<close>.\<close>

definition ilog :: "nat \<Rightarrow> real \<Rightarrow> int" where
  "ilog b a =
     (if 1 \<le> a then int (floorlog b (nat \<lfloor>a\<rfloor>)) - 1
      else - int (floorlog b (nat (\<lceil>1 / a\<rceil> - 1))))"

definition roundHalfEven :: "real \<Rightarrow> int" where
  "roundHalfEven z =
     (let f = \<lfloor>z\<rfloor>; d = z - of_int f
      in if d < 1 / 2 then f else if 1 / 2 < d then f + 1 else if even f then f else f + 1)"

definition round64 :: "real \<Rightarrow> number" where
  "round64 q =
     (if q = 0 then Fin 0
      else
        let a = \<bar>q\<bar>;
            e = max (ilog 2 a) (- 1022);
            u = pow2 (e - 52);
            r = of_int (roundHalfEven (a / u)) * u
        in if 2 ^ 1024 \<le> r then signedInf (q < 0)
           else if r = 0 then signedZero (q < 0)
           else Fin (if q < 0 then - r else r))"

subsection \<open>Arithmetic\<close>

definition num_neg :: "number \<Rightarrow> number" where
  "num_neg x =
     (case x of NaN \<Rightarrow> NaN | PosInf \<Rightarrow> NegInf | NegInf \<Rightarrow> PosInf | NegZero \<Rightarrow> Fin 0
      | Fin q \<Rightarrow> if q = 0 then NegZero else Fin (- q))"

definition num_add :: "number \<Rightarrow> number \<Rightarrow> number" where
  "num_add x y =
     (if x = NaN \<or> y = NaN then NaN
      else if isInf x then (if isInf y \<and> x \<noteq> y then NaN else x)
      else if isInf y then y
      else if x = NegZero \<and> y = NegZero then NegZero
      else round64 (val x + val y))"

definition num_sub :: "number \<Rightarrow> number \<Rightarrow> number" where
  "num_sub x y = num_add x (num_neg y)"

definition num_mul :: "number \<Rightarrow> number \<Rightarrow> number" where
  "num_mul x y =
     (if x = NaN \<or> y = NaN then NaN
      else if isInf x \<or> isInf y
        then (if isZero x \<or> isZero y then NaN else signedInf (signBit x \<noteq> signBit y))
      else if isZero x \<or> isZero y then signedZero (signBit x \<noteq> signBit y)
      else round64 (val x * val y))"

definition num_div :: "number \<Rightarrow> number \<Rightarrow> number" where
  "num_div x y =
     (if x = NaN \<or> y = NaN then NaN
      else if isInf x then (if isInf y then NaN else signedInf (signBit x \<noteq> signBit y))
      else if isInf y then signedZero (signBit x \<noteq> signBit y)
      else if isZero y then (if isZero x then NaN else signedInf (signBit x \<noteq> signBit y))
      else if isZero x then signedZero (signBit x \<noteq> signBit y)
      else round64 (val x / val y))"

text \<open>\<^verbatim>\<open>x <= y\<close> and \<^verbatim>\<open>x !== y\<close> on Numbers: a comparison with NaN is false, the zeros are equal.\<close>

definition num_le :: "number \<Rightarrow> number \<Rightarrow> bool" where
  "num_le x y \<longleftrightarrow>
     x \<noteq> NaN \<and> y \<noteq> NaN \<and>
     (x = NegInf \<or> y = PosInf \<or> (isFinite x \<and> isFinite y \<and> val x \<le> val y))"

definition strictNeq :: "number \<Rightarrow> number \<Rightarrow> bool" where
  "strictNeq x y \<longleftrightarrow> x = NaN \<or> y = NaN \<or> \<not> (x = y \<or> (isZero x \<and> isZero y))"

subsection \<open>\<^verbatim>\<open>parseFloat\<close>\<close>

text \<open>
  \<^verbatim>\<open>parseFloat(s)\<close> skips leading white space and reads the longest prefix that is a
  decimal literal: an optional sign, then \<^verbatim>\<open>Infinity\<close> or digits with an optional
  fraction and an optional exponent. Without such a prefix the result is NaN; otherwise it
  is the literal's value rounded to binary64.
\<close>

definition exponentPart :: "string \<Rightarrow> int" where
  "exponentPart r =
     (case r of
        [] \<Rightarrow> 0
      | c # t \<Rightarrow>
          if c = CHR ''e'' \<or> c = CHR ''E'' then
            (let negative = (take 1 t = ''-'');
                 t' = (if take 1 t = ''-'' \<or> take 1 t = ''+'' then drop 1 t else t);
                 ds = takeWhile isDigit t'
             in if ds = [] then 0
                else if negative then - int (digitsToNat ds) else int (digitsToNat ds))
          else 0)"

definition strDecimalValue :: "string \<Rightarrow> real option" where
  "strDecimalValue s =
     (let ip = takeWhile isDigit s;
          r1 = dropWhile isDigit s;
          hasPoint = (take 1 r1 = ''.'');
          fp = (if hasPoint then takeWhile isDigit (drop 1 r1) else []);
          r2 = (if hasPoint then dropWhile isDigit (drop 1 r1) else r1)
      in if ip = [] \<and> fp = [] then None
         else Some (of_nat (digitsToNat (ip @ fp)) / 10 ^ length fp * pow10 (exponentPart r2)))"

definition parseFloat :: "string \<Rightarrow> number" where
  "parseFloat s =
     (let t = trimStart s;
          negative = (take 1 t = ''-'');
          u = (if take 1 t = ''-'' \<or> take 1 t = ''+'' then drop 1 t else t)
      in if take 8 u = ''Infinity'' then signedInf negative
         else case strDecimalValue u of
                None \<Rightarrow> NaN
              | Some q \<Rightarrow> if q = 0 then signedZero negative
                          else round64 (if negative then - q else q))"

subsection \<open>\<^verbatim>\<open>String(x)\<close> and \<^verbatim>\<open>x.toFixed(2)\<close> on Numbers\<close>

text \<open>
  \<^verbatim>\<open>Number::toString\<close> prints a finite positive value \<open>v\<close> with the fewest digits
  \<open>k\<close> such that some \<open>s\<close> with \<open>10 ^ (k - 1) \<le> s < 10 ^ k\<close> and some \<open>n\<close> give
  \<open>s * 10 ^ (n - k)\<close> rounding to \<open>v\<close>; among several such \<open>s\<close> the one closest to
  \<open>v\<close> is taken. \<open>shortest k v\<close> searches from \<open>k\<close> digits upwards and returns
  \<open>(s, n)\<close>; seventeen digits identify every binary64 value.
\<close>

definition roundTrips :: "real \<Rightarrow> int \<Rightarrow> int \<Rightarrow> bool" where
  "roundTrips v s e \<longleftrightarrow> round64 (of_int s * pow10 e) = Fin v"

definition normDigits :: "nat \<Rightarrow> int \<Rightarrow> int \<Rightarrow> int \<times> int" where
  "normDigits k s n = (if s = 10 ^ k then (10 ^ (k - 1), n + 1) else (s, n))"

function shortest :: "nat \<Rightarrow> real \<Rightarrow> int \<times> int" where
  "shortest k v =
     (let n = ilog 10 v + 1;
          e = n - int k;
          lo = \<lfloor>v / pow10 e\<rfloor>;
          hi = lo + 1;
          nearLo = (v / pow10 e - of_int lo < 1 / 2 \<or> (v / pow10 e - of_int lo = 1 / 2 \<and> even lo))
      in if 17 \<le> k then normDigits k (if nearLo then lo else hi) n
         else if roundTrips v lo e \<and> (nearLo \<or> \<not> roundTrips v hi e) then (lo, n)
         else if roundTrips v hi e then normDigits k hi n
         else shortest (k + 1) v)"
  by pat_completeness auto
termination
  by (relation "measure (\<lambda>(k, v). 17 - k)") auto

declare shortest.simps [simp del]

definition formatNumber :: "string \<Rightarrow> int \<Rightarrow> string" where
  "formatNumber ds n =
     (let k = int (length ds)
      in if k \<le> n \<and> n \<le> 21 then ds @ replicate (nat (n - k)) CHR ''0''
         else if 0 < n \<and> n \<le> 21 then take (nat n) ds @ ''.'' @ drop (nat n) ds
         else if - 6 < n \<and> n \<le> 0 then ''0.'' @ replicate (nat (- n)) CHR ''0'' @ ds
         else
           let ex = natToString (nat \<bar>n - 1\<bar>);
               sgn = (if n - 1 < 0 then ''-'' else ''+'')
           in if k = 1 then ds @ ''e'' @ sgn @ ex
              else take 1 ds @ ''.'' @ drop 1 ds @ ''e'' @ sgn @ ex)"

definition positiveToString :: "real \<Rightarrow> string" where
  "positiveToString v = (case shortest 1 v of (s, n) \<Rightarrow> formatNumber (natToString (nat s)) n)"

definition numberToString :: "number \<Rightarrow> string" where
  "numberToString x =
     (case x of
        NaN \<Rightarrow> ''NaN''
      | PosInf \<Rightarrow> ''Infinity''
      | NegInf \<Rightarrow> ''-Infinity''
      | NegZero \<Rightarrow> ''0''
      | Fin q \<Rightarrow>
          if q = 0 then ''0''
          else if q < 0 then ''-'' @ positiveToString (- q)
          else positiveToString q)"

text \<open>
  \<^verbatim>\<open>x.toFixed(2)\<close>: the integer \<open>n\<close> for which \<open>n / 100\<close> is closest to the magnitude
  (the larger one on a tie), printed with two decimals; magnitudes from \<open>10 ^ 21\<close> on
  are printed as \<^verbatim>\<open>String(x)\<close> prints them. \<open>twoDecimals n\<close> prints \<open>n / 100\<close>: the
  digits of \<open>n\<close>, padded with zeros to three digits, with a point before the last two.
\<close>

definition twoDecimals :: "nat \<Rightarrow> string" where
  "twoDecimals n =
     (let m0 = natToString n;
          m = (if length m0 \<le> 2 then replicate (3 - length m0) CHR ''0'' @ m0 else m0);
          k = length m
      in take (k - 2) m @ ''.'' @ drop (k - 2) m)"

definition toFixed2 :: "number \<Rightarrow> string" where
  "toFixed2 x =
     (if \<not> isFinite x then numberToString x
      else
        let v = val x;
            s = (if v < 0 then ''-'' else []);
            a = \<bar>v\<bar>
        in if 10 ^ 21 \<le> a then s @ numberToString (Fin a)
           else s @ twoDecimals (nat \<lfloor>a * 100 + 1 / 2\<rfloor>))"

subsection \<open>Evaluation of closed terms\<close>

text \<open>
  The recursive functions are unfolded on numerals only, so that the simplifier
  evaluates closed terms and leaves open ones alone.
\<close>

lemma replicate_numeral: "replicate (numeral k) x = x # replicate (pred_numeral k) x"
  by (simp add: numeral_eq_Suc)

lemma floorlog_numeral:
  "floorlog b (numeral n) = (if 1 < b then floorlog b (numeral n div b) + 1 else 0)"
  by (subst compute_floorlog) simp

lemma floorlog_one: "floorlog b 1 = (if 1 < b then 1 else 0)"
  by (subst compute_floorlog) (simp add: floorlog_eq_zero_iff)

lemma floorlog_Suc0: "floorlog b (Suc 0) = (if 1 < b then 1 else 0)"
  using floorlog_one [of b] by simp

lemma floorlog_zero: "floorlog b 0 = 0"
  by (simp add: floorlog_eq_zero_iff)

lemma natToString_numeral:
  "natToString (numeral n) =
     (if numeral n < (10::nat) then [digitChar (numeral n)]
      else natToString (numeral n div 10) @ [digitChar (numeral n mod 10)])"
  by (subst natToString.simps) simp

lemma natToString_zero: "natToString 0 = ''0''"
  by (simp add: natToString.simps digitChar_def)

lemma natToString_one: "natToString 1 = ''1''"
  by (simp add: natToString.simps digitChar_def)

lemma natToString_Suc0: "natToString (Suc 0) = ''1''"
  by (simp add: natToString.simps digitChar_def)

named_theorems js_eval

lemmas js_strings [js_eval] =
  isWhiteSpace_def trimStart_def trim_def isUpperCase_def lowerChar_def toLowerCase_def
  isDigit_def digitVal_def digitsToNat_def digitChar_def
  natToString_numeral natToString_zero natToString_one natToString_Suc0 replicate_numeral

lemmas js_numbers [js_eval] =
  isNaN_def isFinite_def isInf_def isZero_def signedInf_def signedZero_def pow2_def pow10_def
  ilog_def floorlog_numeral floorlog_one floorlog_Suc0 floorlog_zero roundHalfEven_def
  round64_def num_neg_def num_add_def num_sub_def num_mul_def num_div_def num_le_def
  strictNeq_def exponentPart_def strDecimalValue_def parseFloat_def
  roundTrips_def normDigits_def shortest.simps formatNumber_def positiveToString_def
  numberToString_def twoDecimals_def toFixed2_def Let_def

section \<open>Values of the untrusted response\<close>

text \<open>
  \<^verbatim>\<open>processReceipt\<close> returns what \<^verbatim>\<open>JSON.parse\<close> returns, typed \<^verbatim>\<open>any\<close>. A
  \<open>jsval\<close> is such a value, or \<^verbatim>\<open>undefined\<close>; an object is the list of its own
  properties (the first binding of a key is the property).
\<close>

datatype jsval =
    JUndefined
  | JNull
  | JBool bool
  | JNum number
  | JStr string
  | JArr "jsval list"
  | JObj "(string \<times> jsval) list"

text \<open>An exception that the program throws or meets: its class and its message.\<close>

datatype exn = Error string | TypeError string

fun message :: "exn \<Rightarrow> string" where
  "message (Error m) = m"
| "message (TypeError m) = m"

text \<open>\<^verbatim>\<open>typeof v === 'object'\<close>, \<^verbatim>\<open>Array.isArray(v)\<close> and the truth value of \<^verbatim>\<open>v\<close>.\<close>

fun typeofObject :: "jsval \<Rightarrow> bool" where
  "typeofObject JNull = True"
| "typeofObject (JArr xs) = True"
| "typeofObject (JObj kvs) = True"
| "typeofObject _ = False"

fun isArray :: "jsval \<Rightarrow> bool" where
  "isArray (JArr xs) = True"
| "isArray _ = False"

fun truthy :: "jsval \<Rightarrow> bool" where
  "truthy JUndefined = False"
| "truthy JNull = False"
| "truthy (JBool b) = b"
| "truthy (JNum n) = (n \<noteq> NaN \<and> \<not> isZero n)"
| "truthy (JStr s) = (s \<noteq> [])"
| "truthy (JArr xs) = True"
| "truthy (JObj kvs) = True"

text \<open>
  \<^verbatim>\<open>v.key\<close> for one of the keys the program reads (\<^verbatim>\<open>items\<close>, \<^verbatim>\<open>amount\<close>,
  \<^verbatim>\<open>description\<close>, \<^verbatim>\<open>category\<close>), on a value that is not null or undefined: an
  object's own property, and \<^verbatim>\<open>undefined\<close> otherwise, since neither arrays nor the
  prototypes define these keys.
\<close>

fun getProp :: "jsval \<Rightarrow> string \<Rightarrow> jsval" where
  "getProp (JObj kvs) key = (case map_of kvs key of Some v \<Rightarrow> v | None \<Rightarrow> JUndefined)"
| "getProp _ key = JUndefined"

text \<open>\<^verbatim>\<open>a || b\<close>.\<close>

definition orElse :: "jsval \<Rightarrow> jsval \<Rightarrow> jsval" where
  "orElse a b = (if truthy a then a else b)"

text \<open>
  \<^verbatim>\<open>String(v)\<close>. An array is the join of its elements with commas, null and undefined
  elements printing as the empty string. An object is converted by its \<^verbatim>\<open>toString\<close>
  method: the inherited one returns \<^verbatim>\<open>[object Object]\<close>; an own property
  \<^verbatim>\<open>toString\<close> of a parsed object is not callable, the inherited \<^verbatim>\<open>valueOf\<close>
  returns the object itself, and the conversion throws a TypeError.
\<close>

definition primitiveError :: exn where
  "primitiveError = TypeError ''Cannot convert object to primitive value''"

fun joinResults :: "(exn + string) list \<Rightarrow> exn + string list" where
  "joinResults [] = Inr []"
| "joinResults (Inl e # rs) = Inl e"
| "joinResults (Inr x # rs) = (case joinResults rs of Inl e \<Rightarrow> Inl e | Inr xs \<Rightarrow> Inr (x # xs))"

fun toStringJS :: "jsval \<Rightarrow> exn + string" where
  "toStringJS JUndefined = Inr ''undefined''"
| "toStringJS JNull = Inr ''null''"
| "toStringJS (JBool b) = Inr (if b then ''true'' else ''false'')"
| "toStringJS (JNum n) = Inr (numberToString n)"
| "toStringJS (JStr s) = Inr s"
| "toStringJS (JArr xs) =
     (case joinResults
             (map (\<lambda>x. if x = JUndefined \<or> x = JNull then Inr [] else toStringJS x) xs) of
        Inl e \<Rightarrow> Inl e
      | Inr strs \<Rightarrow> Inr (join '','' strs))"
| "toStringJS (JObj kvs) =
     (if ''toString'' \<in> fst ` set kvs then Inl primitiveError else Inr ''[object Object]'')"

section \<open>Sanitizing a scan result (\<^verbatim>\<open>components/Calculator.tsx\<close>)\<close>

record Item =
  description :: string
  amount :: number

record CalculationResult =
  total :: number
  category :: string
  items :: "Item list"

text \<open>\<^verbatim>\<open>value.replace(/[^0-9.-]+/g, "")\<close>: every character that is not a digit, a point or a minus sign is removed.\<close>

definition cleanedString :: "string \<Rightarrow> string" where
  "cleanedString s = filter (\<lambda>c. isDigit c \<or> c = CHR ''.'' \<or> c = CHR ''-'') s"

text \<open>
  Step 2 of the loop body of \<^verbatim>\<open>validateAndSanitizeScanResult\<close>: the amount of an item,
  or \<open>None\<close> where the loop continues with the next item.
\<close>

fun resolveAmount :: "jsval \<Rightarrow> number option" where
  "resolveAmount (JNum rawAmount) = (if isFinite rawAmount then Some rawAmount else None)"
| "resolveAmount (JStr rawAmount) =
     (let parsed = parseFloat (cleanedString rawAmount)
      in if \<not> isNaN parsed \<and> isFinite parsed then Some parsed else None)"
| "resolveAmount _ = None"

text \<open>
  The loop \<^verbatim>\<open>for (const item of items)\<close>, with \<open>sanitizedItems\<close> as its accumulator.
  \<^verbatim>\<open>String(item.description || 'Unnamed Item')\<close> can throw, which ends the loop.
\<close>

fun sanitizeLoop :: "jsval list \<Rightarrow> Item list \<Rightarrow> exn + Item list" where
  "sanitizeLoop [] sanitizedItems = Inr sanitizedItems"
| "sanitizeLoop (item # rest) sanitizedItems =
     (if \<not> truthy item \<or> \<not> typeofObject item then sanitizeLoop rest sanitizedItems
      else
        case resolveAmount (getProp item ''amount'') of
          None \<Rightarrow> sanitizeLoop rest sanitizedItems
        | Some amt \<Rightarrow>
            (case toStringJS (orElse (getProp item ''description'') (JStr ''Unnamed Item'')) of
               Inl e \<Rightarrow> Inl e
             | Inr d \<Rightarrow>
                 sanitizeLoop rest
                   (sanitizedItems @
                    [\<lparr>description = trim d, amount = parseFloat (toFixed2 amt)\<rparr>])))"

definition rawItems :: "jsval \<Rightarrow> jsval list" where
  "rawItems rawResult = (case getProp rawResult ''items'' of JArr xs \<Rightarrow> xs | _ \<Rightarrow> [])"

definition validateAndSanitizeScanResult :: "jsval \<Rightarrow> exn + CalculationResult" where
  "validateAndSanitizeScanResult rawResult =
     (if \<not> truthy rawResult \<or> \<not> typeofObject rawResult
      then Inl (Error ''Invalid response format from AI. Expected an object.'')
      else
        case sanitizeLoop (rawItems rawResult) [] of
          Inl e \<Rightarrow> Inl e
        | Inr sanitizedItems \<Rightarrow>
            (let tot = foldl (\<lambda>sum item. num_add sum (amount item)) (Fin 0) sanitizedItems
             in case toStringJS (orElse (getProp rawResult ''category'') (JStr ''Uncategorized'')) of
                  Inl e \<Rightarrow> Inl e
                | Inr c \<Rightarrow>
                    Inr \<lparr>total = parseFloat (toFixed2 tot), category = trim c,
                         items = sanitizedItems\<rparr>))"

text \<open>\<^verbatim>\<open>parseSanitizedAmount\<close>, on the string that an editable item holds.\<close>

definition parseSanitizedAmount :: "string \<Rightarrow> number" where
  "parseSanitizedAmount v =
     (let parsed = parseFloat (cleanedString v)
      in if isNaN parsed \<or> \<not> isFinite parsed then Fin 0 else parsed)"

section \<open>The state of the application\<close>

text \<open>
  The local types of the editable scan screen and the history entry of \<^verbatim>\<open>types.ts\<close>.
  Field names that a record above already uses carry a prefix. An optional field is an
  \<open>option\<close>. \<open>HistoryPayload\<close> is \<^verbatim>\<open>Omit<HistoryItem, 'id' | 'date'>\<close>.
\<close>

record EditableItem =
  e_description :: string
  e_amount :: string

record EditableScanResult =
  e_total :: number
  e_category :: string
  e_items :: "EditableItem list"

datatype HistoryType = scan | manual | expense

record HistoryPayload =
  h_total :: number
  h_type :: HistoryType
  h_calculation :: "string option"
  h_description :: "string option"
  h_category :: "string option"
  h_imageDataUrl :: "string option"

record HistoryItem = HistoryPayload +
  h_id :: string
  h_date :: string

text \<open>
  The state cells of \<^verbatim>\<open>Calculator\<close> that the handlers below use, and the two cells of
  \<^verbatim>\<open>App\<close> that it receives as props (\<open>history\<close> and \<open>customCategories\<close>). A handler
  is a function from the state of the current render to the state after its updates.
\<close>

record state =
  displayValue :: string
  previousValue :: "number option"
  operator :: "string option"
  waitingForOperand :: bool
  calculationString :: string
  isLoading :: bool
  error :: "string option"
  isScannerOpen :: bool
  scanResult :: "CalculationResult option"
  editableResult :: "EditableScanResult option"
  isScanDetailsVisible :: bool
  imageDataUrl :: "string option"
  history :: "HistoryItem list"
  customCategories :: "string list"

definition initialCategories :: "string list" where
  "initialCategories =
     [''Food & Drink'', ''Groceries'', ''Shopping'', ''Transport'', ''Utilities'', ''Health'',
      ''Entertainment'', ''Home'', ''Personal Care'', ''Uncategorized'']"

definition initialState :: state where
  "initialState =
     \<lparr>displayValue = ''0'', previousValue = None, operator = None, waitingForOperand = True,
      calculationString = [], isLoading = False, error = None, isScannerOpen = False,
      scanResult = None, editableResult = None, isScanDetailsVisible = False,
      imageDataUrl = None, history = [], customCategories = initialCategories\<rparr>"

text \<open>
  \<^verbatim>\<open>addHistoryItem\<close> of \<^verbatim>\<open>App.tsx\<close>. The id and the date come from the clock and the
  random generator; they are the \<open>stamp\<close> argument.
\<close>

definition addHistoryItem :: "string \<times> string \<Rightarrow> HistoryPayload \<Rightarrow> state \<Rightarrow> state" where
  "addHistoryItem stamp item s =
     (let newItem =
            \<lparr>h_total = h_total item, h_type = h_type item, h_calculation = h_calculation item,
             h_description = h_description item, h_category = h_category item,
             h_imageDataUrl = h_imageDataUrl item, h_id = fst stamp, h_date = snd stamp\<rparr>
      in s\<lparr>history := take 50 (newItem # history s)\<rparr>)"

section \<open>The arithmetic engine (\<^verbatim>\<open>components/Calculator.tsx\<close>)\<close>

text \<open>
  The functions of \<^verbatim>\<open>Math\<close> that the engine calls return implementation-approximated
  values, so they are a parameter of the model; every theorem holds for each choice of
  them. The two constants are the binary64 values nearest to \<open>\<pi>\<close> and \<open>e\<close>.
\<close>

record Math =
  Math_pow :: "number \<Rightarrow> number \<Rightarrow> number"
  Math_sqrt :: "number \<Rightarrow> number"
  Math_sin :: "number \<Rightarrow> number"
  Math_cos :: "number \<Rightarrow> number"
  Math_tan :: "number \<Rightarrow> number"
  Math_log10 :: "number \<Rightarrow> number"
  Math_log :: "number \<Rightarrow> number"

definition Math_PI :: number where
  "Math_PI = Fin (884279719003555 / 281474976710656)"

definition Math_E :: number where
  "Math_E = Fin (6121026514868073 / 2251799813685248)"

text \<open>The operator signs: \<^verbatim>\<open>+\<close>, \<^verbatim>\<open>-\<close>, the multiplication sign, the division sign, \<^verbatim>\<open>x^y\<close>.\<close>

definition opPlus :: string where "opPlus = ''+''"
definition opMinus :: string where "opMinus = ''-''"
definition opTimes :: string where "opTimes = [CHR 0xD7]"
definition opDivide :: string where "opDivide = [CHR 0xF7]"
definition opPower :: string where "opPower = ''x^y''"

text \<open>
  The truth value of \<^verbatim>\<open>operator\<close>, a string or null; where it holds,
  \<open>the (operator s)\<close> is the string.
\<close>

definition pending :: "string option \<Rightarrow> bool" where
  "pending op \<longleftrightarrow> op \<noteq> None \<and> op \<noteq> Some []"

definition handleCalculationError :: "state \<Rightarrow> state" where
  "handleCalculationError s =
     s\<lparr>displayValue := ''Error'', previousValue := None, operator := None,
       waitingForOperand := True, calculationString := []\<rparr>"

definition clearAll :: "state \<Rightarrow> state" where
  "clearAll s =
     s\<lparr>displayValue := ''0'', previousValue := None, operator := None,
       waitingForOperand := True, calculationString := []\<rparr>"

definition clearEntry :: "state \<Rightarrow> state" where
  "clearEntry s = (if displayValue s = ''Error'' then clearAll s else s\<lparr>displayValue := ''0''\<rparr>)"

definition toggleSign :: "state \<Rightarrow> state" where
  "toggleSign s =
     (if displayValue s = ''Error'' then s
      else
        let currentValue = parseFloat (displayValue s)
        in if strictNeq currentValue (Fin 0)
           then s\<lparr>displayValue := numberToString (num_mul currentValue (Fin (- 1)))\<rparr>
           else s)"

definition backspace :: "state \<Rightarrow> state" where
  "backspace s =
     (if displayValue s = ''Error'' \<or> waitingForOperand s then s
      else if 1 < length (displayValue s) then s\<lparr>displayValue := butlast (displayValue s)\<rparr>
      else s\<lparr>displayValue := ''0''\<rparr>)"

definition inputDigit :: "string \<Rightarrow> state \<Rightarrow> state" where
  "inputDigit digit s =
     (if displayValue s = ''Error'' then s\<lparr>displayValue := digit, waitingForOperand := False\<rparr>
      else if waitingForOperand s then s\<lparr>displayValue := digit, waitingForOperand := False\<rparr>
      else if 15 \<le> length (displayValue s) then s
      else s\<lparr>displayValue := (if displayValue s = ''0'' then digit else displayValue s @ digit)\<rparr>)"

definition inputDecimal :: "state \<Rightarrow> state" where
  "inputDecimal s =
     (if displayValue s = ''Error'' then s
      else if waitingForOperand s then s\<lparr>displayValue := ''0.'', waitingForOperand := False\<rparr>
      else if CHR ''.'' \<notin> set (displayValue s) then s\<lparr>displayValue := displayValue s @ ''.''\<rparr>
      else s)"

definition inputPercent :: "state \<Rightarrow> state" where
  "inputPercent s =
     (if displayValue s = ''Error'' then s
      else
        let currentValue = parseFloat (displayValue s);
            result = num_div currentValue (Fin 100)
        in s\<lparr>displayValue := numberToString result\<rparr>)"

definition calculate :: "Math \<Rightarrow> number \<Rightarrow> number \<Rightarrow> string \<Rightarrow> number" where
  "calculate M prev current op =
     (if op = opPlus then num_add prev current
      else if op = opMinus then num_sub prev current
      else if op = opTimes then num_mul prev current
      else if op = opDivide then num_div prev current
      else if op = opPower then Math_pow M prev current
      else current)"

definition performOperation :: "Math \<Rightarrow> string \<Rightarrow> state \<Rightarrow> state" where
  "performOperation M nextOperator s =
     (if displayValue s = ''Error'' then s
      else
        let inputValue = parseFloat (displayValue s);
            finish = (\<lambda>s'. s'\<lparr>waitingForOperand := True, operator := Some nextOperator,
                         calculationString := numberToString inputValue @ '' '' @ nextOperator\<rparr>)
        in case previousValue s of
             None \<Rightarrow> finish (s\<lparr>previousValue := Some inputValue\<rparr>)
           | Some prev \<Rightarrow>
               if pending (operator s) then
                 let result = calculate M prev inputValue (the (operator s))
                 in if \<not> isFinite result then handleCalculationError s
                    else finish (s\<lparr>previousValue := Some result,
                                   displayValue := numberToString result\<rparr>)
               else finish s)"

text \<open>The \<^verbatim>\<open>switch\<close> of \<^verbatim>\<open>performUnaryOperation\<close>; \<open>None\<close> is its \<^verbatim>\<open>default: return\<close>.\<close>

definition unaryResult :: "Math \<Rightarrow> string \<Rightarrow> number \<Rightarrow> number option" where
  "unaryResult M operation currentValue =
     (if operation = ''sq'' then Some (Math_pow M currentValue (Fin 2))
      else if operation = ''sqrt'' then Some (Math_sqrt M currentValue)
      else if operation = ''sin''
        then Some (Math_sin M (num_div (num_mul currentValue Math_PI) (Fin 180)))
      else if operation = ''cos''
        then Some (Math_cos M (num_div (num_mul currentValue Math_PI) (Fin 180)))
      else if operation = ''tan''
        then Some (Math_tan M (num_div (num_mul currentValue Math_PI) (Fin 180)))
      else if operation = ''log'' then Some (Math_log10 M currentValue)
      else if operation = ''ln'' then Some (Math_log M currentValue)
      else None)"

definition performUnaryOperation :: "Math \<Rightarrow> string \<Rightarrow> state \<Rightarrow> state" where
  "performUnaryOperation M operation s =
     (if displayValue s = ''Error'' then s
      else
        case unaryResult M operation (parseFloat (displayValue s)) of
          None \<Rightarrow> s
        | Some result \<Rightarrow>
            if \<not> isFinite result then handleCalculationError s
            else s\<lparr>displayValue := numberToString result, waitingForOperand := True\<rparr>)"

datatype mathConstant = Const_pi | Const_e

definition inputConstant :: "mathConstant \<Rightarrow> state \<Rightarrow> state" where
  "inputConstant c s =
     (let s1 = (if displayValue s = ''Error'' then clearAll s else s);
          v = (if c = Const_pi then Math_PI else Math_E)
      in s1\<lparr>displayValue := numberToString v, waitingForOperand := False\<rparr>)"

definition handleEquals :: "Math \<Rightarrow> string \<times> string \<Rightarrow> state \<Rightarrow> state" where
  "handleEquals M stamp s =
     (case previousValue s of
        None \<Rightarrow> s
      | Some prev \<Rightarrow>
          if pending (operator s) then
            let op = the (operator s);
                inputValue = parseFloat (displayValue s);
                result = calculate M prev inputValue op;
                fullCalculation =
                  numberToString prev @ '' '' @ op @ '' '' @ numberToString inputValue
            in if \<not> isFinite result then handleCalculationError s
               else
                 (addHistoryItem stamp
                    \<lparr>h_total = result, h_type = manual, h_calculation = Some fullCalculation,
                     h_description = None, h_category = None, h_imageDataUrl = None\<rparr> s)
                 \<lparr>displayValue := numberToString result, previousValue := None,
                  operator := None, waitingForOperand := True,
                  calculationString := fullCalculation @ '' =''\<rparr>
          else s)"

section \<open>The scan pipeline (\<^verbatim>\<open>components/Calculator.tsx\<close>)\<close>

text \<open>
  \<^verbatim>\<open>processImage\<close> awaits the file reader and then \<^verbatim>\<open>processReceipt\<close>. What the
  reader and the service do is an argument of the model: the reader delivers the data
  URL of the image or fails; the service delivers a response that parses, or a response
  that does not parse, or fails otherwise. \<^verbatim>\<open>readFileAsDataURL\<close> and
  \<^verbatim>\<open>processReceipt\<close> (\<^verbatim>\<open>services/geminiService.ts\<close>) turn a failure into their own
  exception.
\<close>

datatype receiptOutcome = Parsed jsval | NotParsed | NotProcessed

definition readFileAsDataURL :: "string option \<Rightarrow> exn + string" where
  "readFileAsDataURL readOutcome =
     (case readOutcome of
        None \<Rightarrow> Inl (Error ''Could not read image file.'')
      | Some dataUrl \<Rightarrow> Inr dataUrl)"

definition processReceipt :: "receiptOutcome \<Rightarrow> exn + jsval" where
  "processReceipt outcome =
     (case outcome of
        Parsed parsedResult \<Rightarrow> Inr parsedResult
      | NotParsed \<Rightarrow>
          Inl (Error ''Failed to analyze the receipt. The AI returned an invalid data format.'')
      | NotProcessed \<Rightarrow>
          Inl (Error ''Failed to analyze the receipt. The AI model could not process the image.''))"

definition noValidDataError :: exn where
  "noValidDataError = Error ''Could not detect any valid line items or amounts on the receipt.''"

text \<open>The staged copy holds every amount as the text \<^verbatim>\<open>item.amount.toFixed(2)\<close>.\<close>

definition toEditable :: "CalculationResult \<Rightarrow> EditableScanResult" where
  "toEditable r =
     \<lparr>e_total = total r, e_category = category r,
      e_items = map (\<lambda>item. \<lparr>e_description = description item, e_amount = toFixed2 (amount item)\<rparr>)
                  (items r)\<rparr>"

text \<open>The \<^verbatim>\<open>try\<close> block: the state after it, or the exception that leaves it.\<close>

definition processImageTry :: "string option \<Rightarrow> receiptOutcome \<Rightarrow> state \<Rightarrow> exn \<times> state + state" where
  "processImageTry readOutcome outcome s =
     (case readFileAsDataURL readOutcome of
        Inl e \<Rightarrow> Inl (e, s)
      | Inr dataUrl \<Rightarrow>
          (let s1 = s\<lparr>imageDataUrl := Some dataUrl\<rparr>
           in case processReceipt outcome of
                Inl e \<Rightarrow> Inl (e, s1)
              | Inr rawResult \<Rightarrow>
                  (case validateAndSanitizeScanResult rawResult of
                     Inl e \<Rightarrow> Inl (e, s1)
                   | Inr sanitizedResult \<Rightarrow>
                       if items sanitizedResult = [] \<or> num_le (total sanitizedResult) (Fin 0)
                       then Inl (noValidDataError, s1)
                       else Inr (s1\<lparr>scanResult := Some sanitizedResult,
                                     editableResult := Some (toEditable sanitizedResult),
                                     isScanDetailsVisible := True\<rparr>))))"

definition processImage :: "string option \<Rightarrow> receiptOutcome \<Rightarrow> state \<Rightarrow> state" where
  "processImage readOutcome outcome s =
     (let s0 = s\<lparr>isLoading := True, error := None\<rparr>;
          s2 = (case processImageTry readOutcome outcome s0 of
                  Inl (err, s1) \<Rightarrow> s1\<lparr>error := Some (message err), imageDataUrl := None\<rparr>
                | Inr s1 \<Rightarrow> s1)
      in s2\<lparr>isLoading := False, isScannerOpen := False\<rparr>)"

text \<open>
  \<^verbatim>\<open>!customCategories.find(c => c.toLowerCase() === name.toLowerCase())\<close>, and the same
  test written with \<^verbatim>\<open>some\<close>.
\<close>

definition notFound :: "string list \<Rightarrow> string \<Rightarrow> bool" where
  "notFound cs name \<longleftrightarrow>
     (case find (\<lambda>c. toLowerCase c = toLowerCase name) cs of None \<Rightarrow> True | Some c \<Rightarrow> c = [])"

definition someEqual :: "string list \<Rightarrow> string \<Rightarrow> bool" where
  "someEqual cs name \<longleftrightarrow> list_ex (\<lambda>c. toLowerCase c = toLowerCase name) cs"

definition handleConfirmScan :: "string \<times> string \<Rightarrow> state \<Rightarrow> state" where
  "handleConfirmScan stamp s =
     (let s3 =
        (case editableResult s of
           None \<Rightarrow> s
         | Some er \<Rightarrow>
             if 0 < length (e_items er) then
               let tot = e_total er;
                   calculationExpression =
                     join '' + ''
                       (map (\<lambda>item. numberToString (parseSanitizedAmount (e_amount item)))
                          (e_items er));
                   s1 = s\<lparr>displayValue := numberToString tot,
                          calculationString := calculationExpression @ '' ='',
                          previousValue := None, operator := None, waitingForOperand := True\<rparr>;
                   finalCategory = trim (e_category er);
                   s2 = (if finalCategory \<noteq> [] \<and> notFound (customCategories s) finalCategory
                         then s1\<lparr>customCategories := sort (customCategories s1 @ [finalCategory])\<rparr>
                         else s1)
               in addHistoryItem stamp
                    \<lparr>h_total = tot, h_type = scan, h_calculation = Some calculationExpression,
                     h_description = None, h_category = Some finalCategory,
                     h_imageDataUrl = imageDataUrl s\<rparr> s2
             else s)
      in s3\<lparr>isScanDetailsVisible := False, scanResult := None, editableResult := None,
            imageDataUrl := None\<rparr>)"

definition handleDiscardScan :: "state \<Rightarrow> state" where
  "handleDiscardScan s =
     clearAll (s\<lparr>isScanDetailsVisible := False, scanResult := None, editableResult := None,
                 imageDataUrl := None\<rparr>)"

definition handleCategoryInputBlur :: "state \<Rightarrow> state" where
  "handleCategoryInputBlur s =
     (case editableResult s of
        None \<Rightarrow> s
      | Some er \<Rightarrow>
          let newCategory = trim (e_category er)
          in if newCategory \<noteq> [] \<and> \<not> someEqual (customCategories s) newCategory
             then s\<lparr>customCategories := sort (customCategories s @ [newCategory])\<rparr>
             else s)"

text \<open>
  \<^verbatim>\<open>handleAddExpense\<close>, with the three fields of the form as arguments.
\<close>

definition handleAddExpense :: "string \<times> string \<Rightarrow> string \<Rightarrow> string \<Rightarrow> string \<Rightarrow> state \<Rightarrow> state" where
  "handleAddExpense stamp expenseAmount expenseDescription expenseCategory s =
     (let amt = parseFloat expenseAmount
      in if expenseAmount = [] \<or> isNaN amt \<or> num_le amt (Fin 0) then s
         else if trim expenseCategory = [] then s
         else
           let s1 = addHistoryItem stamp
                      \<lparr>h_total = amt, h_type = expense, h_calculation = None,
                       h_description =
                         (if trim expenseDescription = [] then None
                          else Some (trim expenseDescription)),
                       h_category = Some (trim expenseCategory), h_imageDataUrl = None\<rparr> s;
               newCat = trim expenseCategory
           in if newCat \<noteq> [] \<and> \<not> someEqual (customCategories s) newCat
              then s1\<lparr>customCategories := sort (customCategories s1 @ [newCat])\<rparr>
              else s1)"

section \<open>Managing categories (\<^verbatim>\<open>History\<close>, \<^verbatim>\<open>src/unnamed/part_000\<close>)\<close>

text \<open>
  The text of the input field is an argument of the handler. \<^verbatim>\<open>handleDeleteCategory\<close>
  asks \<^verbatim>\<open>window.confirm\<close>; its answer is the argument \<open>confirmed\<close>.
\<close>

definition handleRenameCategory :: "string \<Rightarrow> string \<Rightarrow> state \<Rightarrow> state" where
  "handleRenameCategory newCategoryName oldName s =
     (let newName = trim newCategoryName
      in if newName = [] \<or> newName = oldName then s
         else if someEqual (customCategories s) newName then s
         else
           s\<lparr>customCategories :=
                 sort (map (\<lambda>c. if c = oldName then newName else c) (customCategories s)),
               history :=
                 map (\<lambda>item. if h_category item = Some oldName
                             then item\<lparr>h_category := Some newName\<rparr> else item)
                   (history s)\<rparr>)"

definition handleDeleteCategory :: "bool \<Rightarrow> string \<Rightarrow> state \<Rightarrow> state" where
  "handleDeleteCategory confirmed categoryToDelete s =
     (if confirmed
      then s\<lparr>customCategories := filter (\<lambda>c. c \<noteq> categoryToDelete) (customCategories s)\<rparr>
      else s)"

definition handleAddCategory :: "string \<Rightarrow> state \<Rightarrow> state" where
  "handleAddCategory newCategoryInput s =
     (let newCat = trim newCategoryInput
      in if newCat = [] then s
         else if someEqual (customCategories s) newCat then s
         else s\<lparr>customCategories := sort (customCategories s @ [newCat])\<rparr>)"

section \<open>Sequences of category operations\<close>

text \<open>
  The three operations of the category dialog, and a sequence of them run from a state.
\<close>

datatype categoryOp = AddCategory string | RenameCategory string string | DeleteCategory bool string

fun applyOp :: "categoryOp \<Rightarrow> state \<Rightarrow> state" where
  "applyOp (AddCategory newCategoryInput) s = handleAddCategory newCategoryInput s"
| "applyOp (RenameCategory newCategoryName oldName) s = handleRenameCategory newCategoryName oldName s"
| "applyOp (DeleteCategory confirmed categoryToDelete) s = handleDeleteCategory confirmed categoryToDelete s"

definition applyOps :: "categoryOp list \<Rightarrow> state \<Rightarrow> state" where
  "applyOps ops s = foldl (\<lambda>s' op. applyOp op s') s ops"

definition noCaseDuplicates :: "string list \<Rightarrow> bool" where
  "noCaseDuplicates cs \<longleftrightarrow> distinct (map toLowerCase cs)"

definition isDelete :: "categoryOp \<Rightarrow> bool" where
  "isDelete op \<longleftrightarrow> (case op of DeleteCategory b c \<Rightarrow> True | _ \<Rightarrow> False)"

lemma someEqual_iff: "someEqual cs name \<longleftrightarrow> toLowerCase name \<in> toLowerCase ` set cs"
  unfolding someEqual_def list_ex_iff image_iff by metis

lemma noCaseDuplicates_sort: "noCaseDuplicates (sort cs) = noCaseDuplicates cs"
  by (simp add: noCaseDuplicates_def distinct_map)

lemma noCaseDuplicates_append:
  "noCaseDuplicates cs \<Longrightarrow> \<not> someEqual cs name \<Longrightarrow> noCaseDuplicates (cs @ [name])"
  by (auto simp: noCaseDuplicates_def someEqual_iff)

lemma rename_absent: "old \<notin> set xs \<Longrightarrow> map (\<lambda>x. if x = old then n else x) xs = xs"
  by (induction xs) auto

lemma rename_image:
  "f ` set (map (\<lambda>x. if x = old then n else x) xs) \<subseteq> insert (f n) (f ` set xs)"
  by auto

lemma rename_distinct:
  "distinct (map f xs) \<Longrightarrow> f n \<notin> f ` set xs \<Longrightarrow>
   distinct (map f (map (\<lambda>x. if x = old then n else x) xs))"
proof (induction xs)
  case Nil
  then show ?case by simp
next
  case (Cons a xs)
  let ?g = "\<lambda>x. if x = old then n else x"
  from Cons have IH: "distinct (map f (map ?g xs))"
    by simp
  from Cons.prems have a: "f a \<notin> f ` set xs" "a \<notin> set xs" "f n \<noteq> f a" "f n \<notin> f ` set xs"
    by auto
  show ?case
  proof (cases "a = old")
    case True
    with a have "map ?g xs = xs"
      by (simp add: rename_absent)
    with True Cons.prems a show ?thesis by simp
  next
    case False
    then have eq: "map f (map ?g (a # xs)) = f a # map f (map ?g xs)"
      by simp
    have "f a \<notin> insert (f n) (f ` set xs)"
      using a by auto
    have "f a \<notin> set (map f (map ?g xs))"
    proof
      assume "f a \<in> set (map f (map ?g xs))"
      then have "f a \<in> f ` set (map ?g xs)"
        by (simp only: list.set_map)
      with rename_image [of f old n xs] have "f a \<in> insert (f n) (f ` set xs)"
        by (rule subsetD)
      with \<open>f a \<notin> insert (f n) (f ` set xs)\<close> show False
        by (rule notE)
    qed
    with IH show ?thesis
      unfolding eq by (simp only: distinct.simps simp_thms)
  qed
qed

lemma noCaseDuplicates_rename:
  "noCaseDuplicates cs \<Longrightarrow> \<not> someEqual cs new \<Longrightarrow>
   noCaseDuplicates (map (\<lambda>c. if c = old then new else c) cs)"
  unfolding noCaseDuplicates_def someEqual_iff by (rule rename_distinct)

lemma noCaseDuplicates_filter: "noCaseDuplicates cs \<Longrightarrow> noCaseDuplicates (filter P cs)"
  by (simp add: noCaseDuplicates_def distinct_map_filter)

lemma applyOp_noCaseDuplicates:
  "noCaseDuplicates (customCategories s) \<Longrightarrow> noCaseDuplicates (customCategories (applyOp op s))"
  by (cases op)
    (auto simp: handleAddCategory_def handleRenameCategory_def handleDeleteCategory_def Let_def
      noCaseDuplicates_sort noCaseDuplicates_append noCaseDuplicates_rename noCaseDuplicates_filter)

lemma applyOps_noCaseDuplicates:
  "noCaseDuplicates (customCategories s) \<Longrightarrow> noCaseDuplicates (customCategories (applyOps ops s))"
  unfolding applyOps_def
  by (induction ops arbitrary: s) (auto intro: applyOp_noCaseDuplicates)

lemma initial_noCaseDuplicates: "noCaseDuplicates (customCategories initialState)"
  by (simp add: noCaseDuplicates_def initialState_def initialCategories_def js_eval)

lemma applyOp_sorted_changed:
  "\<not> isDelete op \<Longrightarrow> customCategories (applyOp op s) \<noteq> customCategories s \<Longrightarrow>
   sorted (customCategories (applyOp op s))"
  by (cases op)
    (auto simp: handleAddCategory_def handleRenameCategory_def isDelete_def Let_def split: if_splits)

lemma applyOp_sorted_kept:
  "sorted (customCategories s) \<Longrightarrow> sorted (customCategories (applyOp op s))"
  by (cases op)
    (auto simp: handleAddCategory_def handleRenameCategory_def handleDeleteCategory_def Let_def
      sorted_wrt_filter)

text \<open>
  Claim C8, as amended. From the initial category set, after every sequence of add,
  rename and delete operations no two categories differ only in case. An add or a rename
  that changes the set leaves it sorted ascending, and every operation keeps a sorted set
  sorted. The initial set itself is not sorted, and a delete (or a rejected add or
  rename) does not sort it.
\<close>

theorem category_set_invariant:
  "noCaseDuplicates (customCategories (applyOps ops initialState)) \<and>
   (\<forall>s op. \<not> isDelete op \<longrightarrow> customCategories (applyOp op s) \<noteq> customCategories s \<longrightarrow>
      sorted (customCategories (applyOp op s))) \<and>
   (\<forall>s op. sorted (customCategories s) \<longrightarrow> sorted (customCategories (applyOp op s)))"
  using applyOps_noCaseDuplicates [OF initial_noCaseDuplicates]
    applyOp_sorted_changed applyOp_sorted_kept
  by blast

text \<open>
  Claim C8 as stated fails: deleting \<open>Home\<close> from the initial set leaves
  \<open>Utilities\<close> before \<open>Health\<close>.
\<close>

theorem category_set_unsorted_counterexample:
  "\<not> sorted (customCategories (applyOps [DeleteCategory True ''Home''] initialState))"
  by (simp add: applyOps_def handleDeleteCategory_def initialState_def initialCategories_def)

theorem category_set_invariant_witness:
  "noCaseDuplicates (customCategories (applyOps [AddCategory '' travel '', DeleteCategory True ''Home'', RenameCategory ''Fun'' ''Entertainment''] initialState)) \<and>
   customCategories (applyOp (AddCategory '' travel '') initialState) \<noteq> customCategories initialState \<and>
   sorted (customCategories (applyOp (AddCategory '' travel '') initialState))"
  using category_set_invariant [of "[AddCategory '' travel '', DeleteCategory True ''Home'', RenameCategory ''Fun'' ''Entertainment'']"]
  by (simp add: isDelete_def handleAddCategory_def initialState_def initialCategories_def someEqual_def js_eval)


section \<open>The keys of the calculator\<close>

text \<open>The buttons of the keypad, each with the handler that its \<^verbatim>\<open>onClick\<close> calls.\<close>

datatype key =
    Digit string
  | Decimal
  | Operator string
  | Unary string
  | Constant mathConstant
  | ToggleSign
  | Percent
  | Backspace
  | ClearEntry
  | ClearAll
  | Equals

fun press :: "Math \<Rightarrow> string \<times> string \<Rightarrow> key \<Rightarrow> state \<Rightarrow> state" where
  "press M stamp (Digit d) s = inputDigit d s"
| "press M stamp Decimal s = inputDecimal s"
| "press M stamp (Operator op) s = performOperation M op s"
| "press M stamp (Unary operation) s = performUnaryOperation M operation s"
| "press M stamp (Constant c) s = inputConstant c s"
| "press M stamp ToggleSign s = toggleSign s"
| "press M stamp Percent s = inputPercent s"
| "press M stamp Backspace s = backspace s"
| "press M stamp ClearEntry s = clearEntry s"
| "press M stamp ClearAll s = clearAll s"
| "press M stamp Equals s = handleEquals M stamp s"

text \<open>A sequence of keys, pressed one after the other.\<close>

definition pressAll :: "Math \<Rightarrow> string \<times> string \<Rightarrow> key list \<Rightarrow> state \<Rightarrow> state" where
  "pressAll M stamp ks s = foldl (\<lambda>s' k. press M stamp k s') s ks"

text \<open>
  The state that \<^verbatim>\<open>handleCalculationError\<close> produces: the display shows \<^verbatim>\<open>Error\<close>, the
  operand, the operator and the trace are cleared and the next digit starts an entry.
\<close>

definition ErrorState :: "state \<Rightarrow> bool" where
  "ErrorState s \<longleftrightarrow>
     displayValue s = ''Error'' \<and> previousValue s = None \<and> operator s = None \<and>
     waitingForOperand s \<and> calculationString s = []"

text \<open>The keys that enter a digit or a constant, or clear.\<close>

definition entersOrClears :: "key \<Rightarrow> bool" where
  "entersOrClears k \<longleftrightarrow>
     (case k of Digit d \<Rightarrow> True | Constant c \<Rightarrow> True | ClearEntry \<Rightarrow> True | ClearAll \<Rightarrow> True
      | _ \<Rightarrow> False)"

text \<open>
  An instance of the parameter \<open>Math\<close> for running examples: a square is the rounded
  product, and nothing else is computed.
\<close>

definition squareMath :: Math where
  "squareMath =
     \<lparr>Math_pow = (\<lambda>x y. if y = Fin 2 then num_mul x x else NaN),
      Math_sqrt = (\<lambda>x. NaN), Math_sin = (\<lambda>x. NaN), Math_cos = (\<lambda>x. NaN),
      Math_tan = (\<lambda>x. NaN), Math_log10 = (\<lambda>x. NaN), Math_log = (\<lambda>x. NaN)\<rparr>"

lemma ErrorState_handleCalculationError: "ErrorState (handleCalculationError s)"
  by (simp add: ErrorState_def handleCalculationError_def)

section \<open>The error state\<close>

text \<open>
  Claim C6, as amended. In the error state every key except a digit, a clear key or a
  constant leaves the whole state unchanged. A digit replaces the display and starts an
  entry; clear-all and clear-entry reset the display to \<open>0\<close>, which is the identity
  state of the engine since the operand, the operator and the trace are already cleared;
  a constant loads its value as an entry.
\<close>

theorem error_state_absorbing:
  "ErrorState s \<Longrightarrow>
     (\<not> entersOrClears k \<longrightarrow> press M stamp k s = s) \<and>
     press M stamp (Digit d) s = s\<lparr>displayValue := d, waitingForOperand := False\<rparr> \<and>
     press M stamp ClearAll s = s\<lparr>displayValue := ''0''\<rparr> \<and>
     press M stamp ClearEntry s = s\<lparr>displayValue := ''0''\<rparr> \<and>
     press M stamp (Constant c) s =
       s\<lparr>displayValue := numberToString (if c = Const_pi then Math_PI else Math_E),
         waitingForOperand := False\<rparr>"
  by (cases k)
    (auto simp: ErrorState_def entersOrClears_def inputDigit_def inputDecimal_def
      performOperation_def performUnaryOperation_def inputConstant_def toggleSign_def
      inputPercent_def backspace_def clearEntry_def clearAll_def handleEquals_def Let_def)

text \<open>
  Claim C6 as stated fails: the key \<open>\<pi>\<close> is neither a digit nor a clear key, and in
  the error state it changes the state.
\<close>

theorem constant_leaves_error_state_counterexample:
  "displayValue (handleCalculationError initialState) = ''Error'' \<and>
   inputConstant Const_pi (handleCalculationError initialState)
     \<noteq> handleCalculationError initialState"
proof -
  have "waitingForOperand (inputConstant Const_pi (handleCalculationError initialState))
          \<noteq> waitingForOperand (handleCalculationError initialState)"
    by (simp add: inputConstant_def handleCalculationError_def clearAll_def Let_def)
  then show ?thesis
    by (auto simp: handleCalculationError_def)
qed

theorem error_state_absorbing_witness:
  "ErrorState (handleCalculationError initialState) \<and>
   press squareMath (''id'', ''date'') Percent (handleCalculationError initialState)
     = handleCalculationError initialState \<and>
   displayValue (press squareMath (''id'', ''date'') (Digit ''7'') (handleCalculationError initialState)) = ''7''"
  using error_state_absorbing [OF ErrorState_handleCalculationError,
      of Percent squareMath "(''id'', ''date'')" initialState "''7''" Const_pi]
  by (simp add: entersOrClears_def ErrorState_handleCalculationError)


section \<open>Equals\<close>

definition binaryOperators :: "string set" where
  "binaryOperators = {opPlus, opMinus, opTimes, opDivide, opPower}"

text \<open>The history entry that \<^verbatim>\<open>handleEquals\<close> adds, with its stamp.\<close>

definition manualEntry :: "string \<times> string \<Rightarrow> number \<Rightarrow> string \<Rightarrow> HistoryItem" where
  "manualEntry stamp result calculation =
     \<lparr>h_total = result, h_type = manual, h_calculation = Some calculation,
      h_description = None, h_category = None, h_imageDataUrl = None,
      h_id = fst stamp, h_date = snd stamp\<rparr>"

lemma pending_operator: "op \<in> binaryOperators \<Longrightarrow> pending (Some op)"
  by (auto simp: binaryOperators_def pending_def opPlus_def opMinus_def opTimes_def
      opDivide_def opPower_def)

text \<open>
  Claim C2. Let the operand \<open>a\<close> be stashed, one of the five binary operators \<open>op\<close>
  be pending and the display read as \<open>b\<close>, with \<open>calculate a b op\<close> finite. Then
  equals shows the result, clears the operand and the operator, awaits an operand,
  records the trace \<open>a op b =\<close>, and puts one entry of type \<open>manual\<close> with that total
  and the calculation \<open>a op b\<close> at the head of the history (which keeps its fifty newest
  entries). Without a pending operator equals changes nothing.
\<close>

theorem equals_computes_and_records:
  "(previousValue s = Some a \<and> operator s = Some op \<and> op \<in> binaryOperators \<and>
    parseFloat (displayValue s) = b \<and> isFinite (calculate M a b op) \<longrightarrow>
      handleEquals M stamp s =
        s\<lparr>displayValue := numberToString (calculate M a b op),
          previousValue := None, operator := None, waitingForOperand := True,
          calculationString :=
            numberToString a @ '' '' @ op @ '' '' @ numberToString b @ '' ='',
          history :=
            take 50
              (manualEntry stamp (calculate M a b op)
                 (numberToString a @ '' '' @ op @ '' '' @ numberToString b) # history s)\<rparr>) \<and>
   (operator s = None \<longrightarrow> handleEquals M stamp s = s)"
proof (intro conjI impI)
  assume h: "previousValue s = Some a \<and> operator s = Some op \<and> op \<in> binaryOperators \<and>
    parseFloat (displayValue s) = b \<and> isFinite (calculate M a b op)"
  then have "pending (operator s)"
    by (simp add: pending_operator)
  with h show "handleEquals M stamp s =
        s\<lparr>displayValue := numberToString (calculate M a b op),
          previousValue := None, operator := None, waitingForOperand := True,
          calculationString :=
            numberToString a @ '' '' @ op @ '' '' @ numberToString b @ '' ='',
          history :=
            take 50
              (manualEntry stamp (calculate M a b op)
                 (numberToString a @ '' '' @ op @ '' '' @ numberToString b) # history s)\<rparr>"
    by (simp add: handleEquals_def addHistoryItem_def manualEntry_def Let_def)
next
  assume "operator s = None"
  then show "handleEquals M stamp s = s"
    by (simp add: handleEquals_def pending_def split: option.splits)
qed

text \<open>Evaluating key sequences from the initial state.\<close>

lemmas engine_eval =
  pressAll_def initialState_def inputDigit_def inputDecimal_def performOperation_def
  performUnaryOperation_def unaryResult_def inputConstant_def toggleSign_def inputPercent_def
  backspace_def clearEntry_def clearAll_def handleEquals_def handleCalculationError_def
  calculate_def addHistoryItem_def pending_def squareMath_def
  opPlus_def opMinus_def opTimes_def opDivide_def opPower_def

lemma seven_plus_eight:
  "pressAll squareMath (''id'', ''date'') [Digit ''7'', Operator opPlus, Digit ''8''] initialState =
     initialState\<lparr>displayValue := ''8'', previousValue := Some (Fin 7), operator := Some opPlus,
       waitingForOperand := False, calculationString := ''7 +''\<rparr>"
  by (simp add: engine_eval js_eval cong: let_weak_cong)

theorem equals_computes_and_records_witness:
  "handleEquals squareMath (''id'', ''date'')
     (pressAll squareMath (''id'', ''date'') [Digit ''7'', Operator opPlus, Digit ''8''] initialState) =
   initialState\<lparr>displayValue := ''15'', calculationString := ''7 + 8 ='',
     history := [manualEntry (''id'', ''date'') (Fin 15) ''7 + 8'']\<rparr>"
  using equals_computes_and_records [of
      "pressAll squareMath (''id'', ''date'') [Digit ''7'', Operator opPlus, Digit ''8''] initialState"
      "Fin 7" opPlus "Fin 8" squareMath "(''id'', ''date'')"]
  unfolding seven_plus_eight
  by (simp add: binaryOperators_def initialState_def calculate_def opPlus_def js_eval cong: let_weak_cong)


section \<open>Results that are not finite\<close>

lemma division_by_zero: "isFinite a \<Longrightarrow> isZero b \<Longrightarrow> \<not> isFinite (num_div a b)"
  by (auto simp: num_div_def isFinite_def isZero_def isInf_def signedInf_def)

text \<open>
  Claim C3. A finite number divided by a zero is not finite. Where the pending binary
  operation has a result that is not finite, equals and the next operator key both end in
  the state of \<^verbatim>\<open>handleCalculationError\<close>, and so does a unary operation whose result
  is not finite. That state is the error state, and its history is the history before.
\<close>

theorem non_finite_result_is_error:
  "(isFinite x \<and> isZero y \<longrightarrow> \<not> isFinite (calculate M x y opDivide)) \<and>
   (previousValue s = Some a \<and> pending (operator s) \<and>
    \<not> isFinite (calculate M a (parseFloat (displayValue s)) (the (operator s))) \<longrightarrow>
      handleEquals M stamp s = handleCalculationError s \<and>
      (displayValue s \<noteq> ''Error'' \<longrightarrow>
         performOperation M nextOperator s = handleCalculationError s)) \<and>
   (displayValue s \<noteq> ''Error'' \<and>
    unaryResult M operation (parseFloat (displayValue s)) = Some r \<and> \<not> isFinite r \<longrightarrow>
      performUnaryOperation M operation s = handleCalculationError s) \<and>
   ErrorState (handleCalculationError s) \<and>
   history (handleCalculationError s) = history s"
proof (intro conjI impI)
  assume "isFinite x \<and> isZero y"
  then show "\<not> isFinite (calculate M x y opDivide)"
    by (simp add: calculate_def division_by_zero opDivide_def opPlus_def opMinus_def opTimes_def)
next
  assume "previousValue s = Some a \<and> pending (operator s) \<and>
    \<not> isFinite (calculate M a (parseFloat (displayValue s)) (the (operator s)))"
  then show "handleEquals M stamp s = handleCalculationError s"
    by (simp add: handleEquals_def Let_def)
next
  assume "previousValue s = Some a \<and> pending (operator s) \<and>
    \<not> isFinite (calculate M a (parseFloat (displayValue s)) (the (operator s)))"
    and "displayValue s \<noteq> ''Error''"
  then show "performOperation M nextOperator s = handleCalculationError s"
    by (simp add: performOperation_def Let_def)
next
  assume "displayValue s \<noteq> ''Error'' \<and>
    unaryResult M operation (parseFloat (displayValue s)) = Some r \<and> \<not> isFinite r"
  then show "performUnaryOperation M operation s = handleCalculationError s"
    by (simp add: performUnaryOperation_def)
next
  show "ErrorState (handleCalculationError s)"
    by (rule ErrorState_handleCalculationError)
next
  show "history (handleCalculationError s) = history s"
    by (simp add: handleCalculationError_def)
qed

lemma five_divided_by_zero:
  "pressAll squareMath (''id'', ''date'') [Digit ''5'', Operator opDivide, Digit ''0''] initialState =
     initialState\<lparr>displayValue := ''0'', previousValue := Some (Fin 5), operator := Some opDivide,
       waitingForOperand := False, calculationString := ''5 '' @ opDivide\<rparr>"
  by (simp add: engine_eval js_eval cong: let_weak_cong)

theorem non_finite_result_is_error_witness:
  "handleEquals squareMath (''id'', ''date'')
     (pressAll squareMath (''id'', ''date'') [Digit ''5'', Operator opDivide, Digit ''0''] initialState) =
   initialState\<lparr>displayValue := ''Error''\<rparr>"
  using non_finite_result_is_error [of "Fin 5" "Fin 0" squareMath
      "pressAll squareMath (''id'', ''date'') [Digit ''5'', Operator opDivide, Digit ''0''] initialState"
      "Fin 5" "(''id'', ''date'')" opPlus "''sq''" NaN]
  unfolding five_divided_by_zero
  by (simp add: engine_eval js_eval cong: let_weak_cong)

section \<open>Unary operations\<close>

definition unaryOperations :: "string set" where
  "unaryOperations = {''sq'', ''sqrt'', ''sin'', ''cos'', ''tan'', ''log'', ''ln''}"

text \<open>
  Claim C7. Each of the seven unary operations has a result; where it is finite, the
  operation replaces the display by it and awaits an operand, and changes nothing else,
  so the stashed operand and the pending operator stay. With \<open>3\<^sup>2 = 9\<close> the keys
  \<open>5 + 3 sq =\<close> compute \<open>5 + 9\<close>.
\<close>

theorem unary_operation_frame:
  "(operation \<in> unaryOperations \<longrightarrow>
      unaryResult M operation (parseFloat (displayValue s)) \<noteq> None) \<and>
   (displayValue s \<noteq> ''Error'' \<and>
    unaryResult M operation (parseFloat (displayValue s)) = Some r \<and> isFinite r \<longrightarrow>
      performUnaryOperation M operation s =
        s\<lparr>displayValue := numberToString r, waitingForOperand := True\<rparr>) \<and>
   (Math_pow M (Fin 3) (Fin 2) = Fin 9 \<longrightarrow>
      pressAll M stamp [Digit ''5'', Operator opPlus, Digit ''3'', Unary ''sq'', Equals] initialState =
        initialState\<lparr>displayValue := ''14'', calculationString := ''5 + 9 ='',
          history := [manualEntry stamp (Fin 14) ''5 + 9'']\<rparr>)"
proof (intro conjI impI)
  assume "operation \<in> unaryOperations"
  then show "unaryResult M operation (parseFloat (displayValue s)) \<noteq> None"
    by (auto simp: unaryOperations_def unaryResult_def)
next
  assume "displayValue s \<noteq> ''Error'' \<and>
    unaryResult M operation (parseFloat (displayValue s)) = Some r \<and> isFinite r"
  then show "performUnaryOperation M operation s =
        s\<lparr>displayValue := numberToString r, waitingForOperand := True\<rparr>"
    by (simp add: performUnaryOperation_def)
next
  assume sq: "Math_pow M (Fin 3) (Fin 2) = Fin 9"
  have three: "parseFloat ''3'' = Fin 3" and nine: "numberToString (Fin 9) = ''9''"
    by (simp_all add: js_eval cong: let_weak_cong)
  have before:
    "pressAll M stamp [Digit ''5'', Operator opPlus, Digit ''3''] initialState =
       initialState\<lparr>displayValue := ''3'', previousValue := Some (Fin 5),
         operator := Some opPlus, waitingForOperand := False, calculationString := ''5 +''\<rparr>"
    by (simp add: engine_eval js_eval cong: let_weak_cong)
  have squared:
    "pressAll M stamp [Digit ''5'', Operator opPlus, Digit ''3'', Unary ''sq''] initialState =
       initialState\<lparr>displayValue := ''9'', previousValue := Some (Fin 5),
         operator := Some opPlus, waitingForOperand := True, calculationString := ''5 +''\<rparr>"
    using before sq three nine
    by (simp add: pressAll_def performUnaryOperation_def unaryResult_def initialState_def
        isFinite_def)
  have "pressAll M stamp [Digit ''5'', Operator opPlus, Digit ''3'', Unary ''sq'', Equals] initialState
      = handleEquals M stamp
          (pressAll M stamp [Digit ''5'', Operator opPlus, Digit ''3'', Unary ''sq''] initialState)"
    by (simp add: pressAll_def)
  also have "\<dots> = initialState\<lparr>displayValue := ''14'', calculationString := ''5 + 9 ='',
          history := [manualEntry stamp (Fin 14) ''5 + 9'']\<rparr>"
    unfolding squared
    by (simp add: handleEquals_def calculate_def addHistoryItem_def manualEntry_def pending_def
        initialState_def opPlus_def js_eval cong: let_weak_cong)
  finally show "pressAll M stamp [Digit ''5'', Operator opPlus, Digit ''3'', Unary ''sq'', Equals]
      initialState =
        initialState\<lparr>displayValue := ''14'', calculationString := ''5 + 9 ='',
          history := [manualEntry stamp (Fin 14) ''5 + 9'']\<rparr>" .
qed

lemma squareMath_three: "Math_pow squareMath (Fin 3) (Fin 2) = Fin 9"
  by (simp add: squareMath_def js_eval cong: let_weak_cong)

theorem unary_operation_frame_witness:
  "unaryResult squareMath ''sq'' (parseFloat (displayValue initialState)) \<noteq> None \<and>
   pressAll squareMath (''id'', ''date'')
      [Digit ''5'', Operator opPlus, Digit ''3'', Unary ''sq'', Equals] initialState =
     initialState\<lparr>displayValue := ''14'', calculationString := ''5 + 9 ='',
       history := [manualEntry (''id'', ''date'') (Fin 14) ''5 + 9'']\<rparr>"
  using unary_operation_frame [of "''sq''" squareMath initialState NaN "(''id'', ''date'')"]
    squareMath_three
  by (simp add: unaryOperations_def)


section \<open>What the sanitizer returns\<close>

text \<open>
  The sanitizer as the claim words it. \<open>round2\<close> is rounding to two decimal places.
  \<open>specAmount\<close> resolves an amount: a finite number as it is, a string by stripping every
  character other than digits, the point and the minus sign and parsing the rest, where
  that is finite. An element is \<open>accepted\<close> when it is an object with a resolvable
  amount. The result lists the accepted elements in their order, each with its rounded
  amount, and its total is the rounded sum of those amounts.
\<close>

definition round2 :: "number \<Rightarrow> number" where
  "round2 x = parseFloat (toFixed2 x)"

definition specAmount :: "jsval \<Rightarrow> number option" where
  "specAmount v =
     (case v of
        JNum n \<Rightarrow> if isFinite n then Some n else None
      | JStr str \<Rightarrow>
          if isFinite (parseFloat (filter (\<lambda>c. isDigit c \<or> c = CHR ''.'' \<or> c = CHR ''-'') str))
          then Some (parseFloat (filter (\<lambda>c. isDigit c \<or> c = CHR ''.'' \<or> c = CHR ''-'') str))
          else None
      | _ \<Rightarrow> None)"

definition accepted :: "jsval \<Rightarrow> bool" where
  "accepted e \<longleftrightarrow> e \<noteq> JNull \<and> typeofObject e \<and> specAmount (getProp e ''amount'') \<noteq> None"

text \<open>
  The two conversions by \<^verbatim>\<open>String\<close>, of a description and of the category, succeed or
  throw; \<open>stringOf\<close> is the string of a conversion that succeeds.
\<close>

definition stringable :: "jsval \<Rightarrow> bool" where
  "stringable v \<longleftrightarrow> (case toStringJS v of Inl e \<Rightarrow> False | Inr str \<Rightarrow> True)"

definition stringOf :: "jsval \<Rightarrow> string" where
  "stringOf v = (case toStringJS v of Inl e \<Rightarrow> [] | Inr str \<Rightarrow> str)"

definition descriptionOf :: "jsval \<Rightarrow> jsval" where
  "descriptionOf e = orElse (getProp e ''description'') (JStr ''Unnamed Item'')"

definition categoryOf :: "jsval \<Rightarrow> jsval" where
  "categoryOf rawResult = orElse (getProp rawResult ''category'') (JStr ''Uncategorized'')"

definition specItem :: "jsval \<Rightarrow> Item" where
  "specItem e =
     \<lparr>description = trim (stringOf (descriptionOf e)),
      amount = round2 (the (specAmount (getProp e ''amount'')))\<rparr>"

definition specItems :: "jsval \<Rightarrow> Item list" where
  "specItems rawResult = map specItem (filter accepted (rawItems rawResult))"

definition specTotal :: "Item list \<Rightarrow> number" where
  "specTotal its = round2 (foldl num_add (Fin 0) (map amount its))"

definition conversionsSucceed :: "jsval \<Rightarrow> bool" where
  "conversionsSucceed rawResult \<longleftrightarrow>
     list_all (\<lambda>e. stringable (descriptionOf e)) (filter accepted (rawItems rawResult)) \<and>
     stringable (categoryOf rawResult)"

text \<open>The loop computes what the words say, or throws at the first failing conversion.\<close>

lemma specAmount_resolveAmount: "specAmount v = resolveAmount v"
  by (cases v) (auto simp: specAmount_def cleanedString_def isNaN_def isFinite_def Let_def)

lemma joinResults_error:
  "joinResults rs = Inl e \<Longrightarrow> \<exists>r \<in> set rs. r = Inl e"
  by (induction rs rule: joinResults.induct) (auto split: sum.splits)

lemma toStringJS_error: "toStringJS v = Inl e \<Longrightarrow> e = primitiveError"
proof (induction v arbitrary: e rule: toStringJS.induct)
  case (6 xs)
  then obtain e' where "joinResults
             (map (\<lambda>x. if x = JUndefined \<or> x = JNull then Inr [] else toStringJS x) xs) = Inl e'"
      and "e = e'"
    by (auto split: sum.splits)
  then obtain x where "x \<in> set xs" "(if x = JUndefined \<or> x = JNull then Inr [] else toStringJS x) = Inl e"
    using joinResults_error by fastforce
  with 6 show ?case
    by (auto split: if_splits)
qed (auto split: if_splits)

lemma not_stringable: "\<not> stringable v \<Longrightarrow> toStringJS v = Inl primitiveError"
  by (auto simp: stringable_def dest: toStringJS_error split: sum.splits)

lemma stringable_stringOf: "stringable v \<Longrightarrow> toStringJS v = Inr (stringOf v)"
  by (auto simp: stringable_def stringOf_def split: sum.splits)

lemma skipped: "\<not> accepted e \<Longrightarrow> sanitizeLoop (e # rest) acc = sanitizeLoop rest acc"
  by (cases e) (auto simp: accepted_def specAmount_resolveAmount split: option.splits)

lemma kept:
  "accepted e \<Longrightarrow>
   sanitizeLoop (e # rest) acc =
     (if stringable (descriptionOf e) then sanitizeLoop rest (acc @ [specItem e])
      else Inl primitiveError)"
  by (cases e)
    (auto simp: accepted_def specAmount_resolveAmount specItem_def round2_def descriptionOf_def
      stringable_stringOf not_stringable split: option.splits)

lemma sanitizeLoop_spec:
  "sanitizeLoop xs acc =
     (if list_all (\<lambda>e. stringable (descriptionOf e)) (filter accepted xs)
      then Inr (acc @ map specItem (filter accepted xs))
      else Inl primitiveError)"
proof (induction xs arbitrary: acc)
  case Nil
  then show ?case by simp
next
  case (Cons e xs)
  show ?case
  proof (cases "accepted e")
    case True
    then show ?thesis
      by (simp add: kept Cons.IH del: sanitizeLoop.simps)
  next
    case False
    then show ?thesis
      by (simp add: skipped Cons.IH del: sanitizeLoop.simps)
  qed
qed

lemma foldl_amounts:
  "foldl (\<lambda>sum item. num_add sum (amount item)) z its = foldl num_add z (map amount its)"
  by (induction its arbitrary: z) auto

lemma sanitize_spec:
  "rawResult \<noteq> JNull \<Longrightarrow> typeofObject rawResult \<Longrightarrow>
   validateAndSanitizeScanResult rawResult =
     (if conversionsSucceed rawResult
      then Inr \<lparr>total = specTotal (specItems rawResult),
                category = trim (stringOf (categoryOf rawResult)),
                items = specItems rawResult\<rparr>
      else Inl primitiveError)"
  by (cases rawResult)
    (auto simp: validateAndSanitizeScanResult_def sanitizeLoop_spec conversionsSucceed_def
      specItems_def specTotal_def round2_def categoryOf_def foldl_amounts Let_def
      stringable_stringOf not_stringable)


definition milkExample :: jsval where
  "milkExample =
     JObj [(''items'',
            JArr [JObj [(''description'', JStr ''Milk''), (''amount'', JStr ''$2.50'')],
                  JObj [(''description'', JStr ''Tax''), (''amount'', JStr ''bogus'')]]),
           (''category'', JStr ''Groceries'')]"

lemmas sanitize_eval =
  validateAndSanitizeScanResult_def rawItems_def orElse_def cleanedString_def primitiveError_def

lemma milk_sanitized:
  "validateAndSanitizeScanResult milkExample =
     Inr \<lparr>total = Fin (5 / 2), category = ''Groceries'',
          items = [\<lparr>description = ''Milk'', amount = Fin (5 / 2)\<rparr>]\<rparr>"
  by (simp add: milkExample_def sanitize_eval js_eval cong: let_weak_cong)

text \<open>
  Claim C1. For every raw input object, \<^verbatim>\<open>validateAndSanitizeScanResult\<close> returns
  the result whose items are the accepted elements of \<^verbatim>\<open>raw.items\<close> in their order,
  each amount rounded to two decimals, and whose total is the rounded sum of the rounded
  amounts (a total in the input is not read), or it throws a TypeError: that is where
  \<^verbatim>\<open>String\<close> fails on the description of an accepted element or on the category. The
  example of the specification evaluates as stated.
\<close>

theorem sanitize_result:
  "(rawResult \<noteq> JNull \<and> typeofObject rawResult \<longrightarrow>
      validateAndSanitizeScanResult rawResult =
        (if conversionsSucceed rawResult
         then Inr \<lparr>total = specTotal (specItems rawResult),
                   category = trim (stringOf (categoryOf rawResult)),
                   items = specItems rawResult\<rparr>
         else Inl (TypeError ''Cannot convert object to primitive value''))) \<and>
   validateAndSanitizeScanResult milkExample =
     Inr \<lparr>total = Fin (5 / 2), category = ''Groceries'',
          items = [\<lparr>description = ''Milk'', amount = Fin (5 / 2)\<rparr>]\<rparr>"
proof (intro conjI impI)
  assume "rawResult \<noteq> JNull \<and> typeofObject rawResult"
  then show "validateAndSanitizeScanResult rawResult =
        (if conversionsSucceed rawResult
         then Inr \<lparr>total = specTotal (specItems rawResult),
                   category = trim (stringOf (categoryOf rawResult)),
                   items = specItems rawResult\<rparr>
         else Inl (TypeError ''Cannot convert object to primitive value''))"
    by (simp add: sanitize_spec primitiveError_def)
next
  show "validateAndSanitizeScanResult milkExample =
     Inr \<lparr>total = Fin (5 / 2), category = ''Groceries'',
          items = [\<lparr>description = ''Milk'', amount = Fin (5 / 2)\<rparr>]\<rparr>"
    by (rule milk_sanitized)
qed

text \<open>
  The claim fails where it says that a result is returned for every raw input object: for
  this object, whose description has an own property \<^verbatim>\<open>toString\<close>, the sanitizer throws
  and returns no result. The amount of an element is checked for its type before it is
  used; the description and the category are converted unchecked.
\<close>

theorem sanitize_throws_counterexample:
  "JObj [(''items'',
          JArr [JObj [(''description'', JObj [(''toString'', JStr ''x'')]),
                      (''amount'', JNum (Fin 1))]])] \<noteq> JNull \<and>
   typeofObject
     (JObj [(''items'',
             JArr [JObj [(''description'', JObj [(''toString'', JStr ''x'')]),
                         (''amount'', JNum (Fin 1))]])]) \<and>
   validateAndSanitizeScanResult
     (JObj [(''items'',
             JArr [JObj [(''description'', JObj [(''toString'', JStr ''x'')]),
                         (''amount'', JNum (Fin 1))]])]) =
     Inl (TypeError ''Cannot convert object to primitive value'')"
  by (simp add: sanitize_eval js_eval cong: let_weak_cong)

theorem sanitize_result_witness:
  "milkExample \<noteq> JNull \<and> typeofObject milkExample \<and> conversionsSucceed milkExample \<and>
   specItems milkExample = [\<lparr>description = ''Milk'', amount = Fin (5 / 2)\<rparr>] \<and>
   specTotal [\<lparr>description = ''Milk'', amount = Fin (5 / 2)\<rparr>] = Fin (5 / 2)"
proof -
  have ok: "milkExample \<noteq> JNull \<and> typeofObject milkExample \<and> conversionsSucceed milkExample"
    by (simp add: milkExample_def conversionsSucceed_def accepted_def specAmount_def
        stringable_def descriptionOf_def categoryOf_def sanitize_eval js_eval
        cong: let_weak_cong)
  from ok have cs: "conversionsSucceed milkExample"
    by blast
  from sanitize_result [of milkExample] ok
  have "validateAndSanitizeScanResult milkExample =
      (if conversionsSucceed milkExample
       then Inr \<lparr>total = specTotal (specItems milkExample),
                 category = trim (stringOf (categoryOf milkExample)),
                 items = specItems milkExample\<rparr>
       else Inl (TypeError ''Cannot convert object to primitive value''))"
    and b: "validateAndSanitizeScanResult milkExample =
      Inr \<lparr>total = Fin (5 / 2), category = ''Groceries'',
           items = [\<lparr>description = ''Milk'', amount = Fin (5 / 2)\<rparr>]\<rparr>"
    by blast+
  then have a: "validateAndSanitizeScanResult milkExample =
      Inr \<lparr>total = specTotal (specItems milkExample),
           category = trim (stringOf (categoryOf milkExample)),
           items = specItems milkExample\<rparr>"
    using cs by (simp only: if_True)
  from a [symmetric] b
  have "Inr \<lparr>total = specTotal (specItems milkExample),
             category = trim (stringOf (categoryOf milkExample)),
             items = specItems milkExample\<rparr> =
        (Inr \<lparr>total = Fin (5 / 2), category = ''Groceries'',
             items = [\<lparr>description = ''Milk'', amount = Fin (5 / 2)\<rparr>]\<rparr> :: exn + CalculationResult)"
    by (rule trans)
  with ok show ?thesis
    by auto
qed

section \<open>The sanitizer on objects and on other values\<close>

lemma format_error_iff:
  "validateAndSanitizeScanResult rawResult =
      Inl (Error ''Invalid response format from AI. Expected an object.'') \<longleftrightarrow>
   rawResult = JNull \<or> \<not> typeofObject rawResult"
proof (cases "rawResult = JNull \<or> \<not> typeofObject rawResult")
  case True
  then show ?thesis
    by (cases rawResult) (auto simp: validateAndSanitizeScanResult_def)
next
  case False
  then show ?thesis
    by (simp add: sanitize_spec primitiveError_def)
qed

lemma round2_zero: "round2 (Fin 0) = Fin 0"
  by (simp add: round2_def js_eval cong: let_weak_cong)

lemma sanitize_array:
  "validateAndSanitizeScanResult (JArr xs) =
     Inr \<lparr>total = Fin 0, category = ''Uncategorized'', items = []\<rparr>"
proof -
  have "conversionsSucceed (JArr xs)"
    by (simp add: conversionsSucceed_def rawItems_def categoryOf_def orElse_def stringable_def)
  moreover have "specItems (JArr xs) = []"
    by (simp add: specItems_def rawItems_def)
  moreover have "trim (stringOf (categoryOf (JArr xs))) = ''Uncategorized''"
    by (simp add: categoryOf_def orElse_def stringOf_def js_eval)
  ultimately show ?thesis
    by (simp add: sanitize_spec specTotal_def round2_zero)
qed

text \<open>
  Claim C9. The format error is thrown exactly for null and for values that are not of
  type object, and an array gives the empty result. The sanitizer is not total on
  objects: for a category that is an object with an own property \<^verbatim>\<open>toString\<close> it
  throws a TypeError.
\<close>

theorem sanitize_on_objects:
  "(validateAndSanitizeScanResult rawResult =
      Inl (Error ''Invalid response format from AI. Expected an object.'') \<longleftrightarrow>
    rawResult = JNull \<or> \<not> typeofObject rawResult) \<and>
   validateAndSanitizeScanResult (JArr xs) =
     Inr \<lparr>total = Fin 0, category = ''Uncategorized'', items = []\<rparr> \<and>
   validateAndSanitizeScanResult
     (JObj [(''items'', JArr []), (''category'', JObj [(''toString'', JNum (Fin 1))])]) =
     Inl (TypeError ''Cannot convert object to primitive value'')"
proof (intro conjI)
  show "validateAndSanitizeScanResult
     (JObj [(''items'', JArr []), (''category'', JObj [(''toString'', JNum (Fin 1))])]) =
     Inl (TypeError ''Cannot convert object to primitive value'')"
    by (simp add: sanitize_eval js_eval cong: let_weak_cong)
qed (rule format_error_iff, rule sanitize_array)

theorem sanitize_on_objects_witness:
  "validateAndSanitizeScanResult (JArr [JNum (Fin 1)]) =
     Inr \<lparr>total = Fin 0, category = ''Uncategorized'', items = []\<rparr> \<and>
   validateAndSanitizeScanResult (JStr ''receipt'') =
     Inl (Error ''Invalid response format from AI. Expected an object.'')"
  using sanitize_on_objects [of "JStr ''receipt''" "[JNum (Fin 1)]"]
  by simp


section \<open>Rounding to binary64\<close>

text \<open>Powers of two and ten with integer exponents.\<close>

lemma pow2_powi: "pow2 e = 2 powi e"
  by (simp add: pow2_def power_int_def field_simps)

lemma pow10_powi: "pow10 e = 10 powi e"
  by (simp add: pow10_def power_int_def field_simps)

lemma pow2_pos: "0 < pow2 e"
  by (simp add: pow2_powi)

lemma pow10_pos: "0 < pow10 e"
  by (simp add: pow10_powi)

lemma pow2_mono: "a \<le> b \<Longrightarrow> pow2 a \<le> pow2 b"
  by (simp add: pow2_powi power_int_increasing)

lemma powi_less_cancel: "x powi m < x powi n \<Longrightarrow> m < n" if "1 < x" for x :: real
proof (rule ccontr)
  assume "x powi m < x powi n" "\<not> m < n"
  with that power_int_increasing [of n m x] show False
    by simp
qed

lemma pow2_less_cancel: "pow2 a < pow2 b \<Longrightarrow> a < b"
  using powi_less_cancel [of 2 a b] by (simp add: pow2_powi)

lemma pow2_add: "pow2 (a + b) = pow2 a * pow2 b"
  by (simp add: pow2_powi power_int_add)

lemma pow10_add: "pow10 (a + b) = pow10 a * pow10 b"
  by (simp add: pow10_powi power_int_add)

lemma pow2_Suc: "pow2 (e + 1) = 2 * pow2 e"
  by (simp add: pow2_add) (simp add: pow2_def)

lemma pow2_diff: "pow2 (a - b) = pow2 a / pow2 b"
  by (simp add: pow2_powi power_int_diff)

lemma pow10_diff: "pow10 (a - b) = pow10 a / pow10 b"
  by (simp add: pow10_powi power_int_diff)

lemma pow2_nat: "pow2 (int n) = 2 ^ n"
  by (simp add: pow2_def)

lemma pow10_nat: "pow10 (int n) = 10 ^ n"
  by (simp add: pow10_def)

text \<open>The integer logarithm \<open>ilog b a\<close> brackets \<open>a\<close> between two powers of \<open>b\<close>.\<close>

lemma real_pow_le: "b ^ k \<le> N \<Longrightarrow> real b ^ k \<le> real N"
  by (metis of_nat_le_iff of_nat_power)

lemma real_less_pow: "N < b ^ k \<Longrightarrow> real N + 1 \<le> real b ^ k"
proof -
  assume "N < b ^ k"
  then have "Suc N \<le> b ^ k"
    by simp
  then have "real (Suc N) \<le> real b ^ k"
    by (metis of_nat_le_iff of_nat_power)
  then show ?thesis
    by (simp only: of_nat_Suc add.commute)
qed

lemma ilog_bounds:
  assumes "1 < b" "0 < a"
  shows "real b powi ilog b a \<le> a" "a < real b powi (ilog b a + 1)"
proof -
  have "real b powi ilog b a \<le> a \<and> a < real b powi (ilog b a + 1)"
  proof (cases "1 \<le> a")
    case True
    define N where "N = nat \<lfloor>a\<rfloor>"
    define l where "l = floorlog b N"
    from True have N: "0 < N" "real N \<le> a" "a < real N + 1"
      by (auto simp: N_def)
    from floorlog_bounds [of N b] N assms have fl: "b ^ (l - 1) \<le> N" "N < b ^ l"
      by (simp_all add: l_def)
    from N assms have l: "1 \<le> l"
      by (simp add: l_def floorlog_def)
    have i: "ilog b a = int l - 1"
      using True by (simp add: ilog_def N_def l_def)
    have lo: "real b ^ (l - 1) \<le> a"
      using real_pow_le [OF fl(1)] N by linarith
    have hi: "a < real b ^ l"
      using real_less_pow [OF fl(2)] N by linarith
    have "real b powi (int l - 1) = real b ^ (l - 1)"
      using l by (simp add: power_int_def nat_diff_distrib')
    moreover have "real b powi (int l - 1 + 1) = real b ^ l"
      by (simp add: power_int_def)
    ultimately show ?thesis
      using lo hi by (simp add: i)
  next
    case False
    define c where "c = \<lceil>1 / a\<rceil>"
    define N where "N = nat (c - 1)"
    define l where "l = floorlog b N"
    from False assms have "1 < 1 / a"
      by simp
    then have "2 \<le> c"
      by (simp add: c_def le_ceiling_iff)
    then have N: "0 < N" "int N + 1 = c"
      by (simp_all add: N_def)
    have c: "1 / a \<le> of_int c" "of_int c - 1 < 1 / a"
      unfolding c_def by linarith+
    from floorlog_bounds [of N b] N assms have fl: "b ^ (l - 1) \<le> N" "N < b ^ l"
      by (simp_all add: l_def)
    from N assms have l: "1 \<le> l"
      by (simp add: l_def floorlog_def)
    have i: "ilog b a = - int l"
      using False by (simp add: ilog_def N_def l_def c_def)
    have bpos: "0 < real b"
      using assms by simp
    have Nc: "real N + 1 = of_int c"
      using N(2) by (metis of_int_of_nat_eq of_int_1 of_int_add)
    have "1 / a \<le> real b ^ l"
      using real_less_pow [OF fl(2)] c Nc by linarith
    then have lo: "1 / real b ^ l \<le> a"
      using assms bpos by (simp add: field_simps)
    have "real b ^ (l - 1) < 1 / a"
      using real_pow_le [OF fl(1)] c Nc by linarith
    then have hi: "a < 1 / real b ^ (l - 1)"
      using assms bpos by (simp add: field_simps)
    have "real b powi (- int l) = 1 / real b ^ l"
      by (simp add: power_int_def field_simps)
    moreover have "real b powi (- int l + 1) = 1 / real b ^ (l - 1)"
    proof -
      have "- int l + 1 = - int (l - 1)"
        using l by simp
      then have "real b powi (- int l + 1) = real b powi (- int (l - 1))"
        by (rule arg_cong)
      also have "\<dots> = 1 / real b ^ (l - 1)"
        by (simp only: power_int_minus power_int_of_nat inverse_eq_divide)
      finally show ?thesis .
    qed
    ultimately show ?thesis
      using lo hi by (simp add: i)
  qed
  then show "real b powi ilog b a \<le> a" "a < real b powi (ilog b a + 1)"
    by simp_all
qed

lemma ilog_unique:
  assumes "1 < b" "real b powi e \<le> a" "a < real b powi (e + 1)"
  shows "ilog b a = e"
proof -
  have b: "1 < real b"
    using assms(1) by simp
  then have "0 < real b powi e"
    by simp
  with assms(2) have a: "0 < a"
    by linarith
  note i = ilog_bounds [OF assms(1) a]
  from i(1) assms(3) have "real b powi ilog b a < real b powi (e + 1)"
    by linarith
  then have "ilog b a < e + 1"
    using b by (rule powi_less_cancel [rotated])
  moreover from i(2) assms(2) have "real b powi e < real b powi (ilog b a + 1)"
    by linarith
  then have "e < ilog b a + 1"
    using b by (rule powi_less_cancel [rotated])
  ultimately show ?thesis
    by simp
qed

lemma ilog2_bounds: "0 < a \<Longrightarrow> pow2 (ilog 2 a) \<le> a" "0 < a \<Longrightarrow> a < pow2 (ilog 2 a + 1)"
  using ilog_bounds [of 2 a] by (simp_all add: pow2_powi)

lemma ilog2_unique: "pow2 e \<le> a \<Longrightarrow> a < pow2 (e + 1) \<Longrightarrow> ilog 2 a = e"
  using ilog_unique [of 2 e a] by (simp add: pow2_powi)

lemma ilog10_bounds: "0 < a \<Longrightarrow> pow10 (ilog 10 a) \<le> a" "0 < a \<Longrightarrow> a < pow10 (ilog 10 a + 1)"
  using ilog_bounds [of 10 a] by (simp_all add: pow10_powi)

text \<open>\<open>roundHalfEven z\<close> is within one half of \<open>z\<close>, and is the only integer closer than that.\<close>

lemma roundHalfEven_error: "\<bar>of_int (roundHalfEven z) - z\<bar> \<le> 1 / 2"
  unfolding roundHalfEven_def Let_def by (auto split: if_splits)

lemma roundHalfEven_unique: "\<bar>z - of_int m\<bar> < 1 / 2 \<Longrightarrow> roundHalfEven z = m"
proof -
  assume a: "\<bar>z - of_int m\<bar> < 1 / 2"
  have e: "\<bar>of_int (roundHalfEven z) - z\<bar> \<le> 1 / 2"
    by (rule roundHalfEven_error)
  from a e have "\<bar>(of_int (roundHalfEven z) :: real) - of_int m\<bar> < 1"
    by linarith
  then have "\<bar>roundHalfEven z - m\<bar> < 1"
    by (metis of_int_diff of_int_abs of_int_less_1_iff)
  then show ?thesis
    by simp
qed

text \<open>
  A binary64 value in the normal range has the form \<open>M * 2 ^ (E - 52)\<close> with
  \<open>2 ^ 52 \<le> M < 2 ^ 53\<close>. \<open>round64\<close> sends to it every real closer to it than half the
  distance to its neighbours (\<open>round64_near\<close>).
\<close>

lemma round64_pos:
  assumes "0 < q"
  shows "round64 q =
     (let u = pow2 (max (ilog 2 q) (- 1022) - 52);
          r = of_int (roundHalfEven (q / u)) * u
      in if 2 ^ 1024 \<le> r then PosInf else if r = 0 then Fin 0 else Fin r)"
  using assms by (simp add: round64_def Let_def signedInf_def signedZero_def)

lemma round64_minus: "round64 q = Fin r \<Longrightarrow> 0 < q \<Longrightarrow> 0 < r \<Longrightarrow> round64 (- q) = Fin (- r)"
  by (auto simp: round64_def Let_def signedInf_def signedZero_def split: if_splits)

lemma pow2_52: "pow2 e = 2 ^ 52 * pow2 (e - 52)"
proof -
  have "pow2 e = pow2 (52 + (e - 52))"
    by simp
  also have "\<dots> = pow2 52 * pow2 (e - 52)"
    by (rule pow2_add)
  also have "pow2 52 = 2 ^ 52"
    by (simp add: pow2_def)
  finally show ?thesis .
qed

lemma pow2_53: "pow2 (e - 53) = pow2 (e - 52) / 2"
proof -
  have "pow2 (e - 52) = pow2 ((e - 53) + 1)"
    by simp
  then have "pow2 (e - 52) = 2 * pow2 (e - 53)"
    by (simp only: pow2_Suc)
  then show ?thesis
    by simp
qed

lemma pow2_54: "pow2 (e - 54) = pow2 (e - 52) / 4"
proof -
  have "pow2 (e - 53) = pow2 ((e - 54) + 1)"
    by simp
  then have "pow2 (e - 53) = 2 * pow2 (e - 54)"
    by (simp only: pow2_Suc)
  then show ?thesis
    by (simp add: pow2_53)
qed

lemma pow2_1024: "e \<le> 1023 \<Longrightarrow> pow2 (e + 1) \<le> 2 ^ 1024"
  using pow2_mono [of "e + 1" 1024] by (simp add: pow2_def)

lemma round64_mantissa:
  assumes "0 < q" "pow2 (max (ilog 2 q) (- 1022) - 52) = u" "roundHalfEven (q / u) = m"
    "of_int m * u = y" "0 < y" "y < 2 ^ 1024"
  shows "round64 q = Fin y"
  unfolding round64_pos [OF assms(1)] Let_def assms(2) assms(3) assms(4)
  using assms(5,6) by simp

lemma round64_near:
  assumes y: "y = of_int M * pow2 (E - 52)"
    and M: "2 ^ 52 \<le> M" "M < 2 ^ 53"
    and E: "- 1022 \<le> E" "E \<le> 1023"
    and close: "\<bar>q - y\<bar> < pow2 (E - 53)"
    and edge: "M = 2 ^ 52 \<Longrightarrow> y \<le> q \<or> \<bar>q - y\<bar> < pow2 (E - 54)"
  shows "round64 q = Fin y"
proof -
  define U where "U = pow2 (E - 52)"
  have U: "0 < U"
    by (simp add: U_def pow2_pos)
  have M': "(2::real) ^ 52 \<le> of_int M" "of_int M \<le> (2::real) ^ 53 - 1"
  proof -
    from M(1) have "(of_int (2 ^ 52) :: real) \<le> of_int M"
      by (simp only: of_int_le_iff)
    then show "(2::real) ^ 52 \<le> of_int M"
      by simp
    from M(2) have "M \<le> 2 ^ 53 - 1"
      by simp
    then have "(of_int M :: real) \<le> of_int (2 ^ 53 - 1)"
      by (simp only: of_int_le_iff)
    then show "of_int M \<le> (2::real) ^ 53 - 1"
      by simp
  qed
  have yU: "y = of_int M * U"
    by (simp add: y U_def)
  have ylo: "2 ^ 52 * U \<le> y"
    unfolding yU using M'(1) U by (simp add: mult_right_mono)
  have yhi: "y \<le> (2 ^ 53 - 1) * U"
    unfolding yU using M'(2) U by (simp add: mult_right_mono)
  have cl: "\<bar>q - y\<bar> < U / 2"
    using close by (simp add: pow2_53 U_def)
  have pE: "pow2 E = 2 ^ 52 * U"
    unfolding U_def by (rule pow2_52)
  have pE1: "pow2 (E + 1) = 2 ^ 53 * U"
    by (simp add: pow2_Suc pE)
  have ypos: "0 < y"
  proof -
    have "0 < 2 ^ 52 * U"
      using U by simp
    with ylo show ?thesis
      by linarith
  qed
  have ysmall: "y < 2 ^ 1024"
  proof -
    have "y < 2 ^ 53 * U"
      using yhi U by (simp add: algebra_simps)
    then show ?thesis
      using pow2_1024 [OF E(2)] pE1 by linarith
  qed
  show ?thesis
  proof (cases "2 ^ 52 * U \<le> q")
    case True
    have qpos: "0 < q"
    proof -
      have "0 < 2 ^ 52 * U"
        using U by simp
      with True show ?thesis
        by linarith
    qed
    have "q < 2 ^ 53 * U"
      using cl yhi U by (simp add: algebra_simps; argo)
    then have "ilog 2 q = E"
      using True by (intro ilog2_unique) (simp_all add: pE pE1)
    then have e: "pow2 (max (ilog 2 q) (- 1022) - 52) = U"
      using E by (simp add: U_def max_def)
    have "q / U - of_int M = (q - y) / U"
      using U by (simp add: yU field_simps)
    then have "\<bar>q / U - of_int M\<bar> = \<bar>q - y\<bar> / U"
      using U by (simp add: abs_divide)
    also have "\<dots> < 1 / 2"
      using cl U by (simp add: field_simps)
    finally have "roundHalfEven (q / U) = M"
      by (rule roundHalfEven_unique)
    with qpos e show ?thesis
      using yU [symmetric] ypos ysmall by (rule round64_mantissa)
  next
    case False
    have "M = 2 ^ 52"
    proof (rule ccontr)
      assume "M \<noteq> 2 ^ 52"
      with M(1) have "2 ^ 52 + 1 \<le> M"
        by simp
      then have "(of_int (2 ^ 52 + 1) :: real) \<le> of_int M"
        by (simp only: of_int_le_iff)
      then have "(2 ^ 52 + 1) * U \<le> y"
        unfolding yU using U by (simp add: mult_right_mono)
      with cl False U show False
        by (simp add: algebra_simps; argo)
    qed
    then have y52: "y = 2 ^ 52 * U"
      by (simp add: yU)
    with False edge [OF \<open>M = 2 ^ 52\<close>] have cl4: "\<bar>q - y\<bar> < U / 4"
      by (simp add: pow2_54 U_def)
    have q2: "q < 2 ^ 52 * U"
      using False by simp
    have "y - U / 4 < q"
      using cl4 by argo
    then have q1: "(2 ^ 52 - 1 / 4) * U < q"
      by (simp add: y52 algebra_simps)
    note q = q1 q2
    have qpos: "0 < q"
    proof -
      have "0 < (2 ^ 52 - 1 / 4) * U"
        using U by simp
      with q(1) show ?thesis
        by linarith
    qed
    have pEm: "pow2 (E - 1) = 2 ^ 51 * U"
    proof -
      have "pow2 E = 2 * pow2 (E - 1)"
        using pow2_Suc [of "E - 1"] by simp
      then show ?thesis
        by (simp add: pE)
    qed
    have "ilog 2 q = E - 1"
    proof (intro ilog2_unique)
      have "2 ^ 51 * U \<le> (2 ^ 52 - 1 / 4) * U"
        using U by (simp add: mult_right_mono)
      with q(1) show "pow2 (E - 1) \<le> q"
        unfolding pEm by linarith
      show "q < pow2 (E - 1 + 1)"
        using q(2) by (simp add: pE)
    qed
    show ?thesis
    proof (cases "E = - 1022")
      case True
      with \<open>ilog 2 q = E - 1\<close> have e: "pow2 (max (ilog 2 q) (- 1022) - 52) = U"
        by (simp add: U_def)
      have "q / U - of_int M = (q - y) / U"
        using U by (simp add: yU field_simps)
      then have "\<bar>q / U - of_int M\<bar> = \<bar>q - y\<bar> / U"
        using U by (simp add: abs_divide)
      also have "\<dots> < 1 / 2"
        using cl U by (simp add: field_simps)
      finally have "roundHalfEven (q / U) = M"
        by (rule roundHalfEven_unique)
      with qpos e show ?thesis
        using yU [symmetric] ypos ysmall by (rule round64_mantissa)
    next
      case False
      with E \<open>ilog 2 q = E - 1\<close> have "max (ilog 2 q) (- 1022) - 52 = E - 53"
        by simp
      then have "pow2 (max (ilog 2 q) (- 1022) - 52) = pow2 (E - 53)"
        by (rule arg_cong)
      then have e': "pow2 (max (ilog 2 q) (- 1022) - 52) = U / 2"
        by (simp only: pow2_53 U_def)
      define V where "V = U / 2"
      have V: "0 < V" "U = 2 * V"
        using U by (simp_all add: V_def)
      have e: "pow2 (max (ilog 2 q) (- 1022) - 52) = V"
        by (simp add: e' V_def)
      have yV: "y = of_int (2 ^ 53) * V"
        by (simp add: y52 V(2))
      have "\<bar>q - y\<bar> < V / 2"
        using cl4 by (simp add: V(2))
      moreover have "q / V - of_int (2 ^ 53) = (q - y) / V"
        using V(1) by (simp add: yV field_simps)
      then have "\<bar>q / V - of_int (2 ^ 53)\<bar> = \<bar>q - y\<bar> / V"
        using V(1) by (simp only: abs_divide)
      ultimately have "\<bar>q / V - of_int (2 ^ 53)\<bar> < 1 / 2"
        using V(1) by (simp add: field_simps)
      then have "roundHalfEven (q / V) = 2 ^ 53"
        by (rule roundHalfEven_unique)
      with qpos e show ?thesis
        using yV [symmetric] ypos ysmall by (rule round64_mantissa)
    qed
  qed
qed

lemma int_ge_of_real: "(2::real) ^ k - 1 < of_int m \<Longrightarrow> 2 ^ k \<le> m"
proof -
  assume "(2::real) ^ k - 1 < of_int m"
  then have "(of_int (2 ^ k - 1) :: real) < of_int m"
    by simp
  then have "2 ^ k - 1 < m"
    by (simp only: of_int_less_iff)
  then show ?thesis
    by simp
qed

lemma int_le_of_real: "(of_int m :: real) < 2 ^ k + 1 \<Longrightarrow> m \<le> 2 ^ k"
proof -
  assume "(of_int m :: real) < 2 ^ k + 1"
  then have "(of_int m :: real) < of_int (2 ^ k + 1)"
    by simp
  then have "m < 2 ^ k + 1"
    by (simp only: of_int_less_iff)
  then show ?thesis
    by simp
qed

lemma round64_shape:
  assumes "pow2 (- 1022) \<le> q" "round64 q = Fin y"
  obtains M E where "y = of_int M * pow2 (E - 52)" "2 ^ 52 \<le> M" "M < 2 ^ 53"
    "- 1022 \<le> E" "E \<le> 1023" "\<bar>y - q\<bar> \<le> pow2 (E - 53)"
    "M = 2 ^ 52 \<Longrightarrow> y \<le> q \<or> \<bar>y - q\<bar> \<le> pow2 (E - 54)"
proof -
  have qpos: "0 < q"
    using assms(1) pow2_pos [of "- 1022"] by linarith
  define e where "e = ilog 2 q"
  define u where "u = pow2 (e - 52)"
  define m where "m = roundHalfEven (q / u)"
  have b: "pow2 e \<le> q" "q < pow2 (e + 1)"
    unfolding e_def using qpos by (rule ilog2_bounds)+
  have "pow2 (- 1022) < pow2 (e + 1)"
    using assms(1) b(2) by linarith
  then have e: "- 1022 \<le> e"
    using pow2_less_cancel [of "- 1022" "e + 1"] by simp
  then have mx: "max (ilog 2 q) (- 1022) = e"
    by (simp add: e_def)
  have u: "0 < u"
    by (simp add: u_def pow2_pos)
  have pe: "pow2 e = 2 ^ 52 * u"
    unfolding u_def by (rule pow2_52)
  have pe1: "pow2 (e + 1) = 2 ^ 53 * u"
    by (simp add: pow2_Suc pe)
  have z: "2 ^ 52 \<le> q / u" "q / u < 2 ^ 53"
    using b u unfolding pe pe1 by (simp_all add: field_simps)
  have err: "\<bar>of_int m - q / u\<bar> \<le> 1 / 2"
    unfolding m_def by (rule roundHalfEven_error)
  have "(2::real) ^ 52 - 1 < of_int m"
    using err z(1) by argo
  then have m1: "2 ^ 52 \<le> m"
    by (rule int_ge_of_real)
  have "(of_int m :: real) < 2 ^ 53 + 1"
    using err z(2) by argo
  then have m2: "m \<le> 2 ^ 53"
    by (rule int_le_of_real)
  have m1': "(2::real) ^ 52 \<le> of_int m"
  proof -
    from m1 have "(of_int (2 ^ 52) :: real) \<le> of_int m"
      by (simp only: of_int_le_iff)
    then show ?thesis
      by simp
  qed
  have rpos: "0 < of_int m * u"
  proof -
    have "(0::real) < 2 ^ 52"
      by simp
    with m1' have "0 < (of_int m :: real)"
      by linarith
    then show ?thesis
      using u by simp
  qed
  have r: "of_int m * u < 2 ^ 1024" "y = of_int m * u"
    using assms(2) rpos
    by (auto simp: round64_pos [OF qpos] mx Let_def u_def [symmetric] m_def [symmetric]
        split: if_splits)
  have "of_int m * u - q = (of_int m - q / u) * u"
    using u by (simp add: field_simps)
  then have "\<bar>of_int m * u - q\<bar> = \<bar>of_int m - q / u\<bar> * u"
    using u by (simp add: abs_mult)
  also have "\<dots> \<le> 1 / 2 * u"
    using err u by (simp only: mult_right_mono less_imp_le)
  finally have yerr: "\<bar>y - q\<bar> \<le> u / 2"
    by (simp add: r(2))
  show thesis
  proof (cases "m = 2 ^ 53")
    case False
    with m2 have m3: "m < 2 ^ 53"
      by simp
    have "pow2 e \<le> y"
      using m1' u by (simp add: pe r(2) mult_right_mono)
    with r have "pow2 e < pow2 1024"
      by (simp add: pow2_def)
    then have e2: "e \<le> 1023"
      using pow2_less_cancel [of e 1024] by simp
    have "y = of_int m * pow2 (e - 52)"
      by (simp add: r(2) u_def)
    moreover note m1 m3 e e2
    moreover have "\<bar>y - q\<bar> \<le> pow2 (e - 53)"
      using yerr by (simp add: pow2_53 u_def)
    moreover have "y \<le> q \<or> \<bar>y - q\<bar> \<le> pow2 (e - 54)" if "m = 2 ^ 52"
      using that b(1) by (simp add: r(2) pe)
    ultimately show thesis
      by (rule that)
  next
    case True
    define E where "E = e + 1"
    have u2: "pow2 (E - 52) = 2 * u"
    proof -
      have "pow2 (E - 52) = pow2 (e - 52 + 1)"
        by (rule arg_cong) (simp add: E_def)
      then show ?thesis
        by (simp only: pow2_Suc u_def)
    qed
    have y: "y = 2 ^ 53 * u"
      by (simp add: r(2) True)
    have "y = of_int (2 ^ 52) * pow2 (E - 52)"
      unfolding u2 y by simp
    moreover have "(2::int) ^ 52 \<le> 2 ^ 52" "(2::int) ^ 52 < 2 ^ 53"
      by simp_all
    moreover have "- 1022 \<le> E"
      using e by (simp add: E_def)
    moreover have "E \<le> 1023"
    proof -
      have "pow2 (e + 1) < pow2 1024"
        using r(1) unfolding pe1 True by (simp add: pow2_def)
      then show ?thesis
        using pow2_less_cancel [of "e + 1" 1024] by (simp add: E_def)
    qed
    moreover have e54: "\<bar>y - q\<bar> \<le> pow2 (E - 54)"
      using yerr unfolding pow2_54 u2 by simp
    then have "\<bar>y - q\<bar> \<le> pow2 (E - 53)"
      using u unfolding pow2_54 pow2_53 u2 by simp
    moreover have "y \<le> q \<or> \<bar>y - q\<bar> \<le> pow2 (E - 54)"
      using e54 by simp
    ultimately show thesis
      by (rule that)
  qed
qed

text \<open>A value that \<open>round64\<close> returns is returned for itself.\<close>

lemma round64_idem:
  assumes "pow2 (- 1022) \<le> q" "round64 q = Fin y"
  shows "round64 y = Fin y"
proof -
  from assms obtain M E where "y = of_int M * pow2 (E - 52)" "2 ^ 52 \<le> M" "M < 2 ^ 53"
    "- 1022 \<le> E" "E \<le> 1023"
    by (rule round64_shape)
  then show ?thesis
    by (rule round64_near) (simp_all add: pow2_pos)
qed

text \<open>The sign and the size of what \<open>round64\<close> returns.\<close>

lemma pow2_le_one: "e \<le> 0 \<Longrightarrow> pow2 e \<le> 1"
  using pow2_mono [of e 0] by (simp add: pow2_def)

lemma roundHalfEven_nonneg: "0 \<le> z \<Longrightarrow> 0 \<le> roundHalfEven z"
proof -
  assume "0 \<le> z"
  with roundHalfEven_error [of z] have "(- 1 :: real) < of_int (roundHalfEven z)"
    by argo
  then have "(of_int (- 1) :: real) < of_int (roundHalfEven z)"
    by simp
  then have "- 1 < roundHalfEven z"
    by (simp only: of_int_less_iff)
  then show ?thesis
    by simp
qed

lemma round64_nonneg:
  assumes "0 < q" "round64 q = Fin v"
  shows "0 \<le> v"
proof -
  define u where "u = pow2 (max (ilog 2 q) (- 1022) - 52)"
  have u: "0 < u"
    by (simp add: u_def pow2_pos)
  then have "0 \<le> roundHalfEven (q / u)"
    using assms(1) by (intro roundHalfEven_nonneg) simp
  then have "0 \<le> of_int (roundHalfEven (q / u)) * u"
    using u by simp
  then show ?thesis
    using assms(2) unfolding round64_pos [OF assms(1)] Let_def u_def [symmetric]
    by (auto split: if_splits)
qed

lemma round64_normal_arg:
  assumes "0 < q" "round64 q = Fin v" "2 \<le> v"
  shows "pow2 (- 1022) \<le> q"
proof (rule ccontr)
  assume "\<not> pow2 (- 1022) \<le> q"
  then have small: "q < pow2 (- 1022)"
    by simp
  have "pow2 (ilog 2 q) < pow2 (- 1022)"
    using ilog2_bounds(1) [OF assms(1)] small by linarith
  then have "ilog 2 q < - 1022"
    by (rule pow2_less_cancel)
  then have mx: "max (ilog 2 q) (- 1022) - 52 = - 1074"
    by simp
  define u where "u = pow2 (- 1074)"
  have u: "0 < u" "u \<le> 1"
    by (simp_all add: u_def pow2_pos pow2_le_one)
  have err: "\<bar>of_int (roundHalfEven (q / u)) - q / u\<bar> \<le> 1 / 2"
    by (rule roundHalfEven_error)
  have "of_int (roundHalfEven (q / u)) * u - q = (of_int (roundHalfEven (q / u)) - q / u) * u"
    using u by (simp add: field_simps)
  then have "\<bar>of_int (roundHalfEven (q / u)) * u - q\<bar> =
      \<bar>of_int (roundHalfEven (q / u)) - q / u\<bar> * u"
    using u by (simp add: abs_mult)
  also have "\<dots> \<le> 1 / 2 * u"
    using err u by (simp only: mult_right_mono less_imp_le)
  finally have "of_int (roundHalfEven (q / u)) * u \<le> q + u / 2"
    by argo
  moreover have "q < 1"
    using small pow2_le_one [of "- 1022"] by simp
  ultimately have "of_int (roundHalfEven (q / u)) * u < 2"
    using u by argo
  moreover have "v = of_int (roundHalfEven (q / u)) * u \<or> v = 0"
    using assms(2) unfolding round64_pos [OF assms(1)] Let_def mx u_def [symmetric]
    by (auto split: if_splits)
  ultimately show False
    using assms(3) by auto
qed

lemma round64_neg:
  assumes "q < 0" "round64 q = Fin v"
  shows "round64 (- q) = Fin (- v)"
  using assms by (auto simp: round64_def Let_def signedInf_def signedZero_def split: if_splits)

text \<open>A value of magnitude two or more that \<open>round64\<close> returns, for an argument of either sign, is returned for itself.\<close>

lemma round64_idem_large:
  assumes "round64 q = Fin v" "2 \<le> \<bar>v\<bar>"
  shows "round64 v = Fin v"
proof -
  have pos: "round64 w = Fin w" if "0 < p" "round64 p = Fin w" "2 \<le> \<bar>w\<bar>" for p w
  proof -
    from that have "2 \<le> w"
      using round64_nonneg [of p w] by simp
    with that have "pow2 (- 1022) \<le> p"
      by (intro round64_normal_arg)
    then show ?thesis
      using that(2) by (rule round64_idem)
  qed
  consider "q = 0" | "0 < q" | "q < 0"
    by linarith
  then show ?thesis
  proof cases
    case 1
    with assms show ?thesis
      by (simp add: round64_def)
  next
    case 2
    then show ?thesis
      using assms by (rule pos)
  next
    case 3
    then have m: "round64 (- q) = Fin (- v)"
      using assms(1) by (rule round64_neg)
    from 3 have "0 < - q"
      by simp
    then have f: "round64 (- v) = Fin (- v)"
      using m assms(2) by (intro pos [of "- q"]) simp_all
    have "0 \<le> - v"
      using \<open>0 < - q\<close> m by (rule round64_nonneg)
    with assms(2) have "0 < - v"
      by simp
    from round64_minus [OF f this this] show ?thesis
      by simp
  qed
qed

lemma round64_finite:
  assumes "pow2 (- 1022) \<le> q" "q < 2 ^ 1023"
  obtains y where "round64 q = Fin y" "0 < y"
proof -
  have q: "0 < q"
    using assms(1) pow2_pos [of "- 1022"] by linarith
  define e where "e = max (ilog 2 q) (- 1022)"
  define u where "u = pow2 (e - 52)"
  define r where "r = of_int (roundHalfEven (q / u)) * u"
  have "pow2 e \<le> q"
    using ilog2_bounds(1) [OF q] assms(1) by (simp add: e_def max_def)
  then have "2 ^ 52 * u \<le> q"
    unfolding u_def by (simp only: pow2_52 [symmetric])
  moreover have u: "0 < u"
    by (simp add: u_def pow2_pos)
  ultimately have u': "u / 2 \<le> q / 2 ^ 53"
    by simp
  have "\<bar>of_int (roundHalfEven (q / u)) - q / u\<bar> \<le> 1 / 2"
    by (rule roundHalfEven_error)
  then have "\<bar>of_int (roundHalfEven (q / u)) - q / u\<bar> * u \<le> 1 / 2 * u"
    using u by (simp only: mult_right_mono less_imp_le)
  moreover have "r - q = (of_int (roundHalfEven (q / u)) - q / u) * u"
    using u by (simp add: r_def field_simps)
  then have "\<bar>of_int (roundHalfEven (q / u)) - q / u\<bar> * u = \<bar>r - q\<bar>"
    using u by (simp add: abs_mult)
  ultimately have err: "\<bar>r - q\<bar> \<le> q / 2 ^ 53"
    using u' by linarith
  have d: "q / 2 ^ 53 < q"
    using q by (simp add: field_simps)
  from err d have pos: "0 < r"
    by linarith
  have "(2::real) * 2 ^ 1023 = 2 ^ 1024"
    by simp
  with err d assms(2) have small: "r < 2 ^ 1024"
    by linarith
  have "round64 q = Fin r"
    using pos small
    by (simp add: round64_pos [OF q] Let_def e_def [symmetric] u_def [symmetric] r_def [symmetric])
  then show thesis
    using pos by (rule that)
qed

section \<open>Numbers as strings\<close>

text \<open>The digits of a natural number, and \<^verbatim>\<open>parseFloat\<close> on what \<open>twoDecimals\<close> prints.\<close>


lemma natToString_digits: "set (natToString n) \<subseteq> set ''0123456789''"
proof (induction n rule: natToString.induct)
  case (1 n)
  have d: "digitChar (n mod 10) \<in> set ''0123456789''" "n < 10 \<Longrightarrow> digitChar n \<in> set ''0123456789''"
    unfolding digitChar_def by (rule nth_mem, simp)+
  show ?case
  proof (cases "n < 10")
    case True
    with d show ?thesis by (subst natToString.simps) simp
  next
    case False
    with 1 d show ?thesis by (subst natToString.simps) simp
  qed
qed

lemma natToString_isDigit: "c \<in> set (natToString n) \<Longrightarrow> isDigit c"
  unfolding isDigit_def using natToString_digits [of n] by (rule subsetD)

lemma natToString_nonempty: "natToString n \<noteq> []"
  by (subst natToString.simps) simp

lemma digitVal_digitChar: "d < 10 \<Longrightarrow> digitVal (digitChar d) = d"
proof -
  assume "d < 10"
  then consider "d = 0" | "d = 1" | "d = 2" | "d = 3" | "d = 4" | "d = 5" | "d = 6" | "d = 7"
    | "d = 8" | "d = 9"
    by atomize_elim arith
  then show ?thesis
    by cases (simp_all add: digitVal_def digitChar_def)
qed

lemma digitsToNat_snoc: "digitsToNat (ds @ [c]) = 10 * digitsToNat ds + digitVal c"
  by (simp add: digitsToNat_def)

lemma digitsToNat_natToString: "digitsToNat (natToString n) = n"
proof (induction n rule: natToString.induct)
  case (1 n)
  show ?case
  proof (cases "n < 10")
    case True
    then show ?thesis
      by (subst natToString.simps) (simp add: digitsToNat_def digitVal_digitChar)
  next
    case False
    with 1 show ?thesis
      by (subst natToString.simps) (simp add: digitsToNat_snoc digitVal_digitChar)
  qed
qed

lemma digitsToNat_zeros: "digitsToNat (replicate j CHR ''0'' @ ds) = digitsToNat ds"
  by (induction j) (simp_all add: digitsToNat_def digitVal_def)

lemma isDigit_not_space: "isDigit c \<Longrightarrow> \<not> isWhiteSpace c"
  by (auto simp: isDigit_def isWhiteSpace_def)

lemma zero_isDigit: "isDigit CHR ''0''"
  by (simp add: isDigit_def)


text \<open>\<open>padded n\<close> is the digit string that \<open>twoDecimals n\<close> splits at the point.\<close>

definition padded :: "nat \<Rightarrow> string" where
  "padded n =
     (if length (natToString n) \<le> 2
      then replicate (3 - length (natToString n)) CHR ''0'' @ natToString n
      else natToString n)"

lemma padded_props:
  "3 \<le> length (padded n)" "\<forall>c \<in> set (padded n). isDigit c" "digitsToNat (padded n) = n"
  using natToString_nonempty [of n]
  by (auto simp: padded_def digitsToNat_zeros digitsToNat_natToString natToString_isDigit
      isDigit_not_space intro: zero_isDigit)

lemma twoDecimals_padded:
  "twoDecimals n =
     take (length (padded n) - 2) (padded n) @ ''.'' @ drop (length (padded n) - 2) (padded n)"
  by (simp add: twoDecimals_def padded_def Let_def)

lemma strDecimalValue_twoDecimals: "strDecimalValue (twoDecimals n) = Some (real n / 100)"
proof -
  define m where "m = padded n"
  define ip where "ip = take (length m - 2) m"
  define fp where "fp = drop (length m - 2) m"
  have m: "3 \<le> length m" "\<forall>c \<in> set m. isDigit c" "digitsToNat m = n"
    unfolding m_def by (rule padded_props)+
  have ip: "\<forall>c \<in> set ip. isDigit c" "ip \<noteq> []"
    using m by (auto simp: ip_def dest: in_set_takeD)
  have fp: "\<forall>c \<in> set fp. isDigit c" "length fp = 2"
    using m by (auto simp: fp_def dest: in_set_dropD)
  have whole: "ip @ fp = m"
    by (simp add: ip_def fp_def)
  have nd: "\<not> isDigit CHR ''.''"
    by (simp add: isDigit_def)
  have t1: "takeWhile isDigit (ip @ ''.'' @ fp) = ip"
    using ip nd by (simp add: takeWhile_append2)
  have d1: "dropWhile isDigit (ip @ ''.'' @ fp) = ''.'' @ fp"
    using ip nd by (simp add: dropWhile_append2)
  have t2: "takeWhile isDigit fp = fp" and d2: "dropWhile isDigit fp = []"
    using fp by (simp_all add: takeWhile_eq_all_conv)
  have "strDecimalValue (ip @ ''.'' @ fp) = Some (real (digitsToNat (ip @ fp)) / 10 ^ length fp)"
    unfolding strDecimalValue_def Let_def t1 d1
    using ip by (simp add: t2 d2 exponentPart_def pow10_def)
  then show ?thesis
    by (simp add: twoDecimals_padded m_def [symmetric] ip_def [symmetric] fp_def [symmetric]
        whole m fp)
qed

lemma twoDecimals_hd: obtains c rest where "twoDecimals n = c # rest" "isDigit c"
proof -
  define ip where "ip = take (length (padded n) - 2) (padded n)"
  have "3 \<le> length (padded n)" "\<forall>c \<in> set (padded n). isDigit c"
    by (rule padded_props)+
  then have "\<forall>c \<in> set ip. isDigit c" "ip \<noteq> []"
    by (auto simp: ip_def dest: in_set_takeD)
  then obtain c ip' where "ip = c # ip'" "isDigit c"
    by (cases ip) auto
  then have "twoDecimals n = c # (ip' @ ''.'' @ drop (length (padded n) - 2) (padded n))"
    by (simp add: twoDecimals_padded ip_def [symmetric])
  with \<open>isDigit c\<close> show thesis
    by (rule that [rotated])
qed

lemma parseFloat_twoDecimals:
  "parseFloat (twoDecimals n) = (if n = 0 then Fin 0 else round64 (real n / 100))"
proof -
  obtain c rest where c: "twoDecimals n = c # rest" and d: "isDigit c"
    by (rule twoDecimals_hd)
  from d have ne: "c \<noteq> CHR ''-''" "c \<noteq> CHR ''+''" "c \<noteq> CHR ''I''" "\<not> isWhiteSpace c"
    by (auto simp: isDigit_def isWhiteSpace_def)
  have t: "trimStart (c # rest) = c # rest"
    using ne by (simp add: trimStart_def)
  have v: "strDecimalValue (c # rest) = Some (real n / 100)"
    using strDecimalValue_twoDecimals [of n] by (simp only: c)
  show ?thesis
    unfolding c parseFloat_def t Let_def
    using ne by (simp add: v signedZero_def)
qed

lemma parseFloat_minus_twoDecimals:
  "parseFloat (''-'' @ twoDecimals n) = (if n = 0 then NegZero else round64 (- (real n / 100)))"
proof -
  obtain c rest where c: "twoDecimals n = c # rest" and d: "isDigit c"
    by (rule twoDecimals_hd)
  from d have ne: "c \<noteq> CHR ''I''"
    by (auto simp: isDigit_def)
  have t: "trimStart (''-'' @ c # rest) = ''-'' @ c # rest"
    by (simp add: trimStart_def isWhiteSpace_def)
  have v: "strDecimalValue (c # rest) = Some (real n / 100)"
    using strDecimalValue_twoDecimals [of n] by (simp only: c)
  show ?thesis
    unfolding c parseFloat_def t Let_def
    using ne by (simp add: v signedZero_def)
qed

text \<open>
  The digits that \<open>shortest\<close> returns for a binary64 value denote a decimal that rounds
  to that value: a shorter one is returned only if it does, and seventeen digits always do.
\<close>

lemma pow10_less_cancel: "pow10 a < pow10 b \<Longrightarrow> a < b"
  using powi_less_cancel [of 10 a b] by (simp add: pow10_powi)

lemma scaled_bounds:
  assumes "0 < v" "1 \<le> k"
  shows "10 ^ (k - 1) \<le> v / pow10 (ilog 10 v + 1 - int k)"
    "v / pow10 (ilog 10 v + 1 - int k) < 10 ^ k"
proof -
  define i where "i = ilog 10 v"
  define P where "P = pow10 (i + 1 - int k)"
  have P: "0 < P"
    by (simp add: P_def pow10_pos)
  have b: "pow10 i \<le> v" "v < pow10 (i + 1)"
    unfolding i_def using assms(1) by (rule ilog10_bounds)+
  have "pow10 i = pow10 (int (k - 1) + (i + 1 - int k))"
    by (rule arg_cong) (insert assms(2), simp)
  then have lo: "pow10 i = 10 ^ (k - 1) * P"
    by (simp only: pow10_add pow10_nat P_def)
  have "pow10 (i + 1) = pow10 (int k + (i + 1 - int k))"
    by (rule arg_cong) simp
  then have hi: "pow10 (i + 1) = 10 ^ k * P"
    by (simp only: pow10_add pow10_nat P_def)
  show "10 ^ (k - 1) \<le> v / pow10 (ilog 10 v + 1 - int k)"
    using b(1) P unfolding lo i_def [symmetric] P_def [symmetric] by (simp add: field_simps)
  show "v / pow10 (ilog 10 v + 1 - int k) < 10 ^ k"
    using b(2) P unfolding hi i_def [symmetric] P_def [symmetric] by (simp add: field_simps)
qed

lemma floor_bounds:
  assumes "10 ^ (k - 1) \<le> x" "x < 10 ^ k"
  shows "10 ^ (k - 1) \<le> \<lfloor>x\<rfloor>" "\<lfloor>x\<rfloor> < 10 ^ k"
proof -
  have "of_int (10 ^ (k - 1)) \<le> x"
    using assms(1) by simp
  then show "10 ^ (k - 1) \<le> \<lfloor>x\<rfloor>"
    by (simp only: le_floor_iff)
  have "x < of_int (10 ^ k)"
    using assms(2) by simp
  then show "\<lfloor>x\<rfloor> < 10 ^ k"
    by (simp only: floor_less_iff)
qed

lemma normDigits_digits:
  assumes "1 \<le> k" "10 ^ (k - 1) \<le> c" "c \<le> 10 ^ k"
    "round64 (of_int c * pow10 (n0 - int k)) = Fin v" "normDigits k c n0 = (s, n)"
  shows "10 ^ (k - 1) \<le> s \<and> s < 10 ^ k \<and> round64 (of_int s * pow10 (n - int k)) = Fin v \<and>
    n0 \<le> n"
proof (cases "c = 10 ^ k")
  case True
  with assms(5) have s: "s = 10 ^ (k - 1)" "n = n0 + 1"
    by (simp_all add: normDigits_def)
  have "pow10 (n0 + 1 - int k) = pow10 (1 + (n0 - int k))"
    by (rule arg_cong) simp
  then have "pow10 (n0 + 1 - int k) = 10 * pow10 (n0 - int k)"
    by (simp only: pow10_add) (simp add: pow10_def)
  moreover have "(10::real) ^ k = 10 ^ (k - 1) * 10"
    using assms(1) by (cases k) simp_all
  ultimately have "of_int s * pow10 (n - int k) = of_int c * pow10 (n0 - int k)"
    by (simp add: s True)
  moreover have "(10::int) ^ (k - 1) < 10 ^ k"
    using assms(1) by (intro power_strict_increasing) simp_all
  ultimately show ?thesis
    using assms(4) by (simp add: s)
next
  case False
  with assms(5) have "s = c" "n = n0"
    by (simp_all add: normDigits_def)
  with False assms show ?thesis
    by simp
qed

lemma shortest_unfold:
  assumes "x = v / pow10 (ilog 10 v + 1 - int k)"
    and "nearLo = (x - of_int \<lfloor>x\<rfloor> < 1 / 2 \<or> (x - of_int \<lfloor>x\<rfloor> = 1 / 2 \<and> even \<lfloor>x\<rfloor>))"
  shows "shortest k v =
     (if 17 \<le> k then normDigits k (if nearLo then \<lfloor>x\<rfloor> else \<lfloor>x\<rfloor> + 1) (ilog 10 v + 1)
      else if roundTrips v \<lfloor>x\<rfloor> (ilog 10 v + 1 - int k) \<and>
          (nearLo \<or> \<not> roundTrips v (\<lfloor>x\<rfloor> + 1) (ilog 10 v + 1 - int k))
        then (\<lfloor>x\<rfloor>, ilog 10 v + 1)
      else if roundTrips v (\<lfloor>x\<rfloor> + 1) (ilog 10 v + 1 - int k)
        then normDigits k (\<lfloor>x\<rfloor> + 1) (ilog 10 v + 1)
      else shortest (k + 1) v)"
  unfolding assms by (subst shortest.simps) (simp only: Let_def)

lemma shortest_digits:
  assumes v: "round64 v = Fin v" "1 \<le> v"
  shows "k \<le> 17 \<Longrightarrow> 1 \<le> k \<Longrightarrow> shortest k v = (s, n) \<Longrightarrow>
    \<exists>j. 1 \<le> j \<and> 10 ^ (j - 1) \<le> s \<and> s < 10 ^ j \<and>
      round64 (of_int s * pow10 (n - int j)) = Fin v \<and> ilog 10 v + 1 \<le> n"
proof (induction k arbitrary: s n rule: inc_induct)
  case base
  define n0 where "n0 = ilog 10 v + 1"
  define x where "x = v / pow10 (ilog 10 v + 1 - int 17)"
  define nearLo where "nearLo = (x - of_int \<lfloor>x\<rfloor> < 1 / 2 \<or> (x - of_int \<lfloor>x\<rfloor> = 1 / 2 \<and> even \<lfloor>x\<rfloor>))"
  define c where "c = (if nearLo then \<lfloor>x\<rfloor> else \<lfloor>x\<rfloor> + 1)"
  define P where "P = pow10 (n0 - int 17)"
  have xP: "x = v / P"
    by (simp add: x_def P_def n0_def)
  have vpos: "0 < v"
    using v(2) by simp
  have P: "0 < P"
    by (simp add: P_def pow10_pos)
  have x: "10 ^ 16 \<le> x" "x < 10 ^ 17"
    using scaled_bounds [OF vpos, of 17] by (simp_all add: x_def)
  have fl: "10 ^ 16 \<le> \<lfloor>x\<rfloor>" "\<lfloor>x\<rfloor> < 10 ^ 17"
    using floor_bounds [of 17 x] x by simp_all
  have c: "10 ^ 16 \<le> c" "c \<le> 10 ^ 17" "\<bar>of_int c - x\<bar> \<le> 1 / 2"
    using fl by (auto simp: c_def nearLo_def)
  have res: "normDigits 17 c n0 = (s, n)"
    using base(2) unfolding shortest_unfold [OF x_def nearLo_def] c_def n0_def by simp
  have "pow2 (- 1022) \<le> 1"
    by (simp add: pow2_def)
  with v(2) have "pow2 (- 1022) \<le> v"
    by linarith
  from this v(1) obtain M E where sh: "v = of_int M * pow2 (E - 52)" "2 ^ 52 \<le> M" "M < 2 ^ 53"
    "- 1022 \<le> E" "E \<le> 1023"
    by (rule round64_shape)
  define U where "U = pow2 (E - 52)"
  have U: "0 < U"
    by (simp add: U_def pow2_pos)
  have "M \<le> 2 ^ 53"
    using sh(3) by simp
  then have "(of_int M :: real) \<le> of_int (2 ^ 53)"
    by (simp only: of_int_le_iff)
  then have vU: "v \<le> 2 ^ 53 * U"
    unfolding sh(1) U_def [symmetric] using U by (simp add: mult_right_mono)
  have err: "\<bar>of_int c * P - v\<bar> \<le> v / (2 * 10 ^ 16)"
  proof -
    have "of_int c * P - v = (of_int c - x) * P"
      using P by (simp add: xP field_simps)
    then have "\<bar>of_int c * P - v\<bar> = \<bar>of_int c - x\<bar> * P"
      using P by (simp add: abs_mult)
    also have "\<dots> \<le> 1 / 2 * P"
      using c(3) P by (simp only: mult_right_mono less_imp_le)
    also have "\<dots> \<le> 1 / 2 * (v / 10 ^ 16)"
      using x(1) P by (simp add: xP field_simps)
    finally show ?thesis
      by simp
  qed
  have close: "\<bar>of_int c * P - v\<bar> < pow2 (E - 53)"
  proof -
    have "v / (2 * 10 ^ 16) \<le> 2 ^ 53 * U / (2 * 10 ^ 16)"
      using vU by (simp add: divide_right_mono)
    also have "\<dots> < U / 2"
      using U by simp
    finally show ?thesis
      using err by (simp add: pow2_53 U_def)
  qed
  have edge: "v \<le> of_int c * P \<or> \<bar>of_int c * P - v\<bar> < pow2 (E - 54)" if "M = 2 ^ 52"
  proof -
    have "v = 2 ^ 52 * U"
      by (simp add: sh(1) that U_def)
    then have "v / (2 * 10 ^ 16) < U / 4"
      using U by simp
    then show ?thesis
      using err by (simp add: pow2_54 U_def)
  qed
  from sh close edge have "round64 (of_int c * P) = Fin v"
    by (rule round64_near)
  with c res have "10 ^ (17 - 1) \<le> s \<and> s < 10 ^ 17 \<and>
      round64 (of_int s * pow10 (n - int 17)) = Fin v \<and> n0 \<le> n"
    by (intro normDigits_digits [of 17 c n0]) (simp_all add: P_def)
  then show ?case
    unfolding n0_def by (intro exI [of _ 17]) simp
next
  case (step k)
  define n0 where "n0 = ilog 10 v + 1"
  define x where "x = v / pow10 (ilog 10 v + 1 - int k)"
  define nearLo where "nearLo = (x - of_int \<lfloor>x\<rfloor> < 1 / 2 \<or> (x - of_int \<lfloor>x\<rfloor> = 1 / 2 \<and> even \<lfloor>x\<rfloor>))"
  define A where "A = roundTrips v \<lfloor>x\<rfloor> (n0 - int k)"
  define B where "B = roundTrips v (\<lfloor>x\<rfloor> + 1) (n0 - int k)"
  have vpos: "0 < v"
    using v(2) by simp
  have x: "10 ^ (k - 1) \<le> x" "x < 10 ^ k"
    using scaled_bounds [OF vpos step.prems(1)] by (simp_all add: x_def)
  have fl: "10 ^ (k - 1) \<le> \<lfloor>x\<rfloor>" "\<lfloor>x\<rfloor> < 10 ^ k"
    using floor_bounds [of k x] x by simp_all
  have "(if A \<and> (nearLo \<or> \<not> B) then (\<lfloor>x\<rfloor>, n0)
      else if B then normDigits k (\<lfloor>x\<rfloor> + 1) n0 else shortest (k + 1) v) = (s, n)"
    using step.prems(2) step.hyps(2)
    unfolding shortest_unfold [OF x_def nearLo_def] A_def B_def n0_def by simp
  then consider (lo) "A" "(s, n) = (\<lfloor>x\<rfloor>, n0)" | (hi) "B" "normDigits k (\<lfloor>x\<rfloor> + 1) n0 = (s, n)"
    | (more) "shortest (k + 1) v = (s, n)"
    by (cases A; cases B; cases nearLo) auto
  then show ?case
  proof cases
    case lo
    then show ?thesis
      using fl step.prems(1) by (intro exI [of _ k]) (simp add: A_def roundTrips_def n0_def)
  next
    case hi
    have "10 ^ (k - 1) \<le> s \<and> s < 10 ^ k \<and>
      round64 (of_int s * pow10 (n - int k)) = Fin v \<and> n0 \<le> n"
      using step.prems(1) _ _ _ hi(2)
    proof (rule normDigits_digits)
      show "10 ^ (k - 1) \<le> \<lfloor>x\<rfloor> + 1" "\<lfloor>x\<rfloor> + 1 \<le> 10 ^ k"
        using fl by simp_all
      show "round64 (of_int (\<lfloor>x\<rfloor> + 1) * pow10 (n0 - int k)) = Fin v"
        using hi(1) by (simp add: B_def roundTrips_def)
    qed
    then show ?thesis
      using step.prems(1) by (intro exI [of _ k]) (simp add: n0_def)
  next
    case more
    then show ?thesis
      using step.IH [of s n] by simp
  qed
qed

text \<open>
  A binary64 value from \<open>10 ^ 21\<close> on is printed in exponent notation, and
  \<^verbatim>\<open>parseFloat\<close> reads it back.
\<close>

lemma natToString_length:
  "1 \<le> j \<Longrightarrow> 10 ^ (j - 1) \<le> m \<Longrightarrow> m < 10 ^ j \<Longrightarrow> length (natToString m) = j"
proof (induction j arbitrary: m)
  case 0
  then show ?case by simp
next
  case (Suc j)
  show ?case
  proof (cases "j = 0")
    case True
    with Suc.prems show ?thesis
      by (subst natToString.simps) simp
  next
    case False
    then have j: "1 \<le> j"
      by simp
    then have "(10::nat) ^ j = 10 * 10 ^ (j - 1)"
      by (cases j) simp_all
    with Suc.prems have m: "10 * 10 ^ (j - 1) \<le> m" "m < 10 * 10 ^ j"
      by simp_all
    then have "10 ^ (j - 1) \<le> m div 10" "m div 10 < 10 ^ j"
      by (simp_all add: less_mult_imp_div_less mult.commute)
    with j have "length (natToString (m div 10)) = j"
      by (rule Suc.IH)
    moreover have "\<not> m < 10"
    proof -
      have "(1::nat) \<le> 10 ^ (j - 1)"
        by simp
      then have "(10::nat) \<le> 10 * 10 ^ (j - 1)"
        by simp
      with m(1) show ?thesis
        by linarith
    qed
    ultimately show ?thesis
      by (subst natToString.simps) simp
  qed
qed

lemma exponentPart_plus:
  assumes "\<forall>c \<in> set ex. isDigit c" "ex \<noteq> []"
  shows "exponentPart (''e+'' @ ex) = int (digitsToNat ex)"
proof -
  have tw: "takeWhile isDigit ex = ex"
    using assms(1) by simp
  show ?thesis
    using assms(2) by (simp add: exponentPart_def Let_def tw)
qed

lemma formatNumber_exponent:
  "21 < n \<Longrightarrow>
   formatNumber ds n =
     (if length ds = 1 then ds @ ''e+'' @ natToString (nat (n - 1))
      else take 1 ds @ ''.'' @ drop 1 ds @ ''e+'' @ natToString (nat (n - 1)))"
  by (simp add: formatNumber_def Let_def)

lemma strDecimalValue_exponent:
  assumes ds: "\<forall>c \<in> set ds. isDigit c" "ds \<noteq> []" and ex: "\<forall>c \<in> set ex. isDigit c" "ex \<noteq> []"
  shows "strDecimalValue
      (if length ds = 1 then ds @ ''e+'' @ ex else take 1 ds @ ''.'' @ drop 1 ds @ ''e+'' @ ex) =
    Some (real (digitsToNat ds) / 10 ^ (length ds - 1) * pow10 (int (digitsToNat ex)))"
proof (cases "length ds = 1")
  case True
  have "takeWhile isDigit (ds @ ''e+'' @ ex) = ds" "dropWhile isDigit (ds @ ''e+'' @ ex) = ''e+'' @ ex"
    using ds by (simp_all add: takeWhile_append2 dropWhile_append2 isDigit_def)
  then show ?thesis
    using True ds(2) exponentPart_plus [OF ex]
    unfolding strDecimalValue_def Let_def by simp
next
  case False
  define d1 where "d1 = take 1 ds"
  define rest where "rest = drop 1 ds"
  have d1: "\<forall>c \<in> set d1. isDigit c" "d1 \<noteq> []"
    using ds by (auto simp: d1_def dest: in_set_takeD)
  have rest: "\<forall>c \<in> set rest. isDigit c" "length rest = length ds - 1"
    using ds by (auto simp: rest_def dest: in_set_dropD)
  have whole: "d1 @ rest = ds"
    by (simp add: d1_def rest_def)
  have t1: "takeWhile isDigit (d1 @ ''.'' @ rest @ ''e+'' @ ex) = d1"
    and r1: "dropWhile isDigit (d1 @ ''.'' @ rest @ ''e+'' @ ex) = ''.'' @ rest @ ''e+'' @ ex"
    using d1 by (simp_all add: takeWhile_append2 dropWhile_append2 isDigit_def)
  have t2: "takeWhile isDigit (rest @ ''e+'' @ ex) = rest"
    and r2: "dropWhile isDigit (rest @ ''e+'' @ ex) = ''e+'' @ ex"
    using rest by (simp_all add: takeWhile_append2 dropWhile_append2 isDigit_def)
  have "strDecimalValue (d1 @ ''.'' @ rest @ ''e+'' @ ex) =
      Some (real (digitsToNat (d1 @ rest)) / 10 ^ length rest * pow10 (exponentPart (''e+'' @ ex)))"
    unfolding strDecimalValue_def Let_def t1 r1 using d1(2) t2 r2 by simp
  then have "strDecimalValue (d1 @ ''.'' @ rest @ ''e+'' @ ex) =
      Some (real (digitsToNat ds) / 10 ^ (length ds - 1) * pow10 (int (digitsToNat ex)))"
    by (simp only: whole rest(2) exponentPart_plus [OF ex])
  then show ?thesis
    using False unfolding d1_def rest_def by simp
qed

lemma parseFloat_decimal:
  assumes "isDigit c" "strDecimalValue (c # rest) = Some q" "q \<noteq> 0"
  shows "parseFloat (c # rest) = round64 q" "parseFloat (CHR ''-'' # c # rest) = round64 (- q)"
proof -
  from assms(1) have ne: "c \<noteq> CHR ''-''" "c \<noteq> CHR ''+''" "c \<noteq> CHR ''I''" "\<not> isWhiteSpace c"
    by (auto simp: isDigit_def isWhiteSpace_def)
  have t: "trimStart (c # rest) = c # rest" "trimStart (CHR ''-'' # c # rest) = CHR ''-'' # c # rest"
    using ne by (simp_all add: trimStart_def isWhiteSpace_def)
  show "parseFloat (c # rest) = round64 q"
    unfolding parseFloat_def t Let_def using ne assms(2,3) by simp
  show "parseFloat (CHR ''-'' # c # rest) = round64 (- q)"
    unfolding parseFloat_def t Let_def using ne assms(2,3) by simp
qed

lemma positiveToString_roundtrip:
  assumes "round64 v = Fin v" "10 ^ 21 \<le> v"
  shows "parseFloat (positiveToString v) = Fin v"
    "parseFloat (''-'' @ positiveToString v) = Fin (- v)"
proof -
  obtain s n where sn: "shortest 1 v = (s, n)"
    by (cases "shortest 1 v")
  have v1: "1 \<le> v"
    using assms(2) by simp
  from shortest_digits [OF assms(1) v1 _ _ sn] obtain j where j: "1 \<le> j" "10 ^ (j - 1) \<le> s"
    "s < 10 ^ j" "round64 (of_int s * pow10 (n - int j)) = Fin v" "ilog 10 v + 1 \<le> n"
    by auto
  have "pow10 21 < pow10 (ilog 10 v + 1)"
    using ilog10_bounds(2) [of v] assms(2) by (simp add: pow10_def)
  then have "21 < ilog 10 v + 1"
    by (rule pow10_less_cancel)
  with j(5) have n: "21 < n"
    by simp
  define ds where "ds = natToString (nat s)"
  define ex where "ex = natToString (nat (n - 1))"
  have spos: "0 < s"
  proof -
    have "(0::int) < 10 ^ (j - 1)"
      by simp
    with j(2) show ?thesis
      by linarith
  qed
  have "(10::nat) ^ (j - 1) \<le> nat s" "nat s < 10 ^ j"
  proof -
    have "int (10 ^ (j - 1)) \<le> s" "s < int (10 ^ j)"
      using j(2,3) by simp_all
    then show "(10::nat) ^ (j - 1) \<le> nat s" "nat s < 10 ^ j"
      using spos by linarith+
  qed
  with j(1) have len: "length ds = j"
    unfolding ds_def by (rule natToString_length)
  have ds: "\<forall>c \<in> set ds. isDigit c" "ds \<noteq> []" "digitsToNat ds = nat s"
    by (simp_all add: ds_def natToString_isDigit natToString_nonempty digitsToNat_natToString)
  have ex: "\<forall>c \<in> set ex. isDigit c" "ex \<noteq> []" "int (digitsToNat ex) = n - 1"
    using n by (simp_all add: ex_def natToString_isDigit natToString_nonempty
        digitsToNat_natToString)
  define q where "q = of_int s * pow10 (n - int j)"
  have "pow10 (n - int j) = pow10 (n - 1 - int (j - 1))"
    by (rule arg_cong) (insert j(1), simp)
  then have "pow10 (n - int j) = pow10 (n - 1) / 10 ^ (j - 1)"
    by (simp only: pow10_diff pow10_nat)
  moreover have "real (nat s) = of_int s"
    using spos by simp
  ultimately have q: "real (digitsToNat ds) / 10 ^ (length ds - 1) * pow10 (int (digitsToNat ex)) = q"
    by (simp add: ds(3) ex(3) len q_def)
  have str: "positiveToString v =
      (if length ds = 1 then ds @ ''e+'' @ ex else take 1 ds @ ''.'' @ drop 1 ds @ ''e+'' @ ex)"
    unfolding positiveToString_def sn by (simp add: formatNumber_exponent [OF n] ds_def ex_def)
  have sv: "strDecimalValue (positiveToString v) = Some q"
    unfolding str q [symmetric] using ds(1,2) ex(1,2) by (rule strDecimalValue_exponent)
  obtain c rest where c: "ds = c # rest" "isDigit c"
    using ds(1,2) by (cases ds) auto
  then have "\<exists>rest'. positiveToString v = c # rest'"
    unfolding str by (cases "rest = []") simp_all
  then obtain rest' where hd: "positiveToString v = c # rest'"
    by blast
  have qpos: "0 < q"
    using spos by (simp add: q_def pow10_pos)
  then have q0: "q \<noteq> 0"
    by simp
  have rq: "round64 q = Fin v"
    using j(4) by (simp add: q_def)
  show "parseFloat (positiveToString v) = Fin v"
    using parseFloat_decimal(1) [OF c(2) sv [unfolded hd] q0] rq by (simp add: hd)
  have vpos: "0 < v"
    using v1 by simp
  show "parseFloat (''-'' @ positiveToString v) = Fin (- v)"
    using parseFloat_decimal(2) [OF c(2) sv [unfolded hd] q0] round64_minus [OF rq qpos vpos]
    by (simp add: hd)
qed

section \<open>Rounding to two decimals\<close>

text \<open>
  Where \<open>y\<close> is the binary64 value of \<open>n / 100\<close>, the hundredths nearest to \<open>y\<close> round
  to \<open>y\<close> again: below \<open>2 ^ 46\<close> they are \<open>n\<close> hundredths, and from there on they
  lie closer to \<open>y\<close> than half the distance between binary64 values.
\<close>

lemma cents_stable:
  assumes "0 < n" "round64 (real n / 100) = Fin y"
  shows "round64 (real (nat \<lfloor>y * 100 + 1 / 2\<rfloor>) / 100) = Fin y" "0 < y"
proof -
  define q where "q = real n / 100"
  have "pow2 (- 1022) \<le> 1 / 100"
    by (simp add: pow2_def)
  also have "\<dots> \<le> q"
    using assms(1) by (simp add: q_def)
  finally have lo: "pow2 (- 1022) \<le> q" .
  from lo assms(2) obtain M E where s: "y = of_int M * pow2 (E - 52)" "2 ^ 52 \<le> M" "M < 2 ^ 53"
    "- 1022 \<le> E" "E \<le> 1023" "\<bar>y - q\<bar> \<le> pow2 (E - 53)"
    unfolding q_def [symmetric] by (rule round64_shape)
  have M': "(2::real) ^ 52 \<le> of_int M"
  proof -
    from s(2) have "(of_int (2 ^ 52) :: real) \<le> of_int M"
      by (simp only: of_int_le_iff)
    then show ?thesis
      by simp
  qed
  have "pow2 E \<le> y"
    unfolding pow2_52 [of E] s(1) using M' pow2_pos [of "E - 52"] by (simp add: mult_right_mono)
  then show ypos: "0 < y"
    using pow2_pos [of E] by linarith
  define n' where "n' = nat \<lfloor>y * 100 + 1 / 2\<rfloor>"
  have n': "real n' \<le> y * 100 + 1 / 2" "y * 100 - 1 / 2 < real n'"
  proof -
    have "0 \<le> \<lfloor>y * 100 + 1 / 2\<rfloor>"
      using ypos by simp
    then have "real n' = of_int \<lfloor>y * 100 + 1 / 2\<rfloor>"
      by (simp add: n'_def)
    then show "real n' \<le> y * 100 + 1 / 2" "y * 100 - 1 / 2 < real n'"
      by linarith+
  qed
  show "round64 (real (nat \<lfloor>y * 100 + 1 / 2\<rfloor>) / 100) = Fin y"
  proof (cases "E \<le> 45")
    case True
    then have "pow2 (E - 53) \<le> pow2 (- 8)"
      by (intro pow2_mono) simp
    also have "\<dots> = 1 / 256"
      by (simp add: pow2_def)
    finally have "\<bar>y - q\<bar> \<le> 1 / 256"
      using s(6) by linarith
    then have "real n - 1 / 2 < y * 100" "y * 100 < real n + 1 / 2"
      unfolding q_def by argo+
    then have "\<lfloor>y * 100 + 1 / 2\<rfloor> = int n"
      by (intro floor_unique; simp; linarith)
    then show ?thesis
      using assms(2) by simp
  next
    case False
    then have "pow2 (- 7) \<le> pow2 (E - 53)"
      by (intro pow2_mono) simp
    moreover have "pow2 (- 7) = 1 / 128"
      by (simp add: pow2_def)
    ultimately have big: "1 / 128 \<le> pow2 (E - 53)"
      by simp
    have "\<bar>real n' / 100 - y\<bar> \<le> 1 / 200"
      using n' by argo
    with big have close: "\<bar>real n' / 100 - y\<bar> < pow2 (E - 53)"
      by linarith
    have edge: "y \<le> real n' / 100 \<or> \<bar>real n' / 100 - y\<bar> < pow2 (E - 54)" if "M = 2 ^ 52"
    proof -
      from False have E: "0 \<le> E"
        by simp
      have "y = pow2 E"
        unfolding pow2_52 [of E] s(1) that by simp
      also have "\<dots> = 2 ^ nat E"
        using E by (simp add: pow2_def)
      finally have "y * 100 = real (2 ^ nat E * 100)"
        by simp
      then have "\<lfloor>y * 100 + 1 / 2\<rfloor> = int (2 ^ nat E * 100)"
        by (intro floor_unique) simp_all
      then have "n' = 2 ^ nat E * 100"
        unfolding n'_def by (simp only: nat_int)
      then have "real n' = y * 100"
        using \<open>y * 100 = real (2 ^ nat E * 100)\<close> by simp
      then show ?thesis
        by simp
    qed
    from s(1-5) close edge show ?thesis
      unfolding n'_def by (rule round64_near)
  qed
qed

text \<open>\<open>round2\<close> by cases of its argument.\<close>

lemma round64_zero: "round64 0 = Fin 0"
  by (simp add: round64_def)

lemma parseFloat_twoDecimals_eq: "parseFloat (twoDecimals n) = round64 (real n / 100)"
  by (simp add: parseFloat_twoDecimals round64_zero)

lemma round2_nonneg:
  assumes "0 \<le> v" "v < 10 ^ 21"
  shows "round2 (Fin v) = round64 (real (nat \<lfloor>v * 100 + 1 / 2\<rfloor>) / 100)"
proof -
  have "toFixed2 (Fin v) = twoDecimals (nat \<lfloor>v * 100 + 1 / 2\<rfloor>)"
    using assms by (simp add: toFixed2_def isFinite_def Let_def)
  then show ?thesis
    unfolding round2_def by (simp only: parseFloat_twoDecimals_eq)
qed

lemma round2_neg:
  assumes "v < 0" "- v < 10 ^ 21"
  shows "round2 (Fin v) =
    (if nat \<lfloor>- v * 100 + 1 / 2\<rfloor> = 0 then NegZero
     else round64 (- (real (nat \<lfloor>- v * 100 + 1 / 2\<rfloor>) / 100)))"
proof -
  have "toFixed2 (Fin v) = ''-'' @ twoDecimals (nat \<lfloor>- v * 100 + 1 / 2\<rfloor>)"
    using assms by (simp add: toFixed2_def isFinite_def Let_def)
  then show ?thesis
    unfolding round2_def by (simp only: parseFloat_minus_twoDecimals)
qed

lemma round2_large:
  assumes "10 ^ 21 \<le> \<bar>v\<bar>" "round64 v = Fin v"
  shows "round2 (Fin v) = Fin v"
proof (cases "v < 0")
  case False
  with assms(1) have v: "10 ^ 21 \<le> v"
    by simp
  then have "toFixed2 (Fin v) = positiveToString v"
    using False by (simp add: toFixed2_def isFinite_def Let_def numberToString_def)
  then show ?thesis
    unfolding round2_def using positiveToString_roundtrip(1) [OF assms(2) v] by simp
next
  case True
  with assms(1) have v: "10 ^ 21 \<le> - v"
    by simp
  have r: "round64 (- v) = Fin (- v)"
    using True assms(2) by (rule round64_neg)
  have "toFixed2 (Fin v) = ''-'' @ positiveToString (- v)"
    using True v by (simp add: toFixed2_def isFinite_def Let_def numberToString_def)
  then show ?thesis
    unfolding round2_def using positiveToString_roundtrip(2) [OF r v] by simp
qed

lemma round2_NegZero: "round2 NegZero = Fin 0"
proof -
  have "toFixed2 NegZero = twoDecimals 0"
    by (simp add: toFixed2_def isFinite_def Let_def)
  then show ?thesis
    unfolding round2_def by (simp add: parseFloat_twoDecimals)
qed

lemma hundredths_stable:
  assumes "0 < n" "round64 (real n / 100) = Fin y"
  shows "round2 (Fin y) = Fin y" "round2 (Fin (- y)) = Fin (- y)"
proof -
  define n' where "n' = nat \<lfloor>y * 100 + 1 / 2\<rfloor>"
  have c: "round64 (real n' / 100) = Fin y" and ypos: "0 < y"
    unfolding n'_def using assms by (rule cents_stable)+
  have "round2 (Fin y) = Fin y \<and> round2 (Fin (- y)) = Fin (- y)"
  proof (cases "y < 10 ^ 21")
    case True
    have "n' \<noteq> 0"
    proof
      assume "n' = 0"
      with c have "Fin y = Fin 0"
        by (simp add: round64_zero)
      with ypos show False
        by simp
    qed
    then have "0 < real n' / 100"
      by simp
    from round64_minus [OF c this ypos] \<open>n' \<noteq> 0\<close> have "round2 (Fin (- y)) = Fin (- y)"
      using True ypos by (simp add: round2_neg n'_def [symmetric])
    moreover have "round2 (Fin y) = Fin y"
      using True ypos c by (simp add: round2_nonneg n'_def [symmetric])
    ultimately show ?thesis
      by simp
  next
    case False
    have "pow2 (- 1022) \<le> 1 / 100"
      by (simp add: pow2_def)
    also have "\<dots> \<le> real n / 100"
      using assms(1) by simp
    finally have i: "round64 y = Fin y"
      using assms(2) by (rule round64_idem)
    from False ypos have big: "10 ^ 21 \<le> \<bar>y\<bar>" "10 ^ 21 \<le> \<bar>- y\<bar>"
      by simp_all
    from big(1) i have "round2 (Fin y) = Fin y"
      by (rule round2_large)
    moreover from big(2) round64_minus [OF i ypos ypos] have "round2 (Fin (- y)) = Fin (- y)"
      by (rule round2_large)
    ultimately show ?thesis
      by simp
  qed
  then show "round2 (Fin y) = Fin y" "round2 (Fin (- y)) = Fin (- y)"
    by simp_all
qed

lemma hundredths_finite:
  assumes "0 < n" "real n \<le> a * 100 + 1 / 2" "a < 10 ^ 21"
  obtains y where "round64 (real n / 100) = Fin y" "0 < y"
proof -
  have "pow2 (- 1022) \<le> 1 / 100"
    by (simp add: pow2_def)
  also have "\<dots> \<le> real n / 100"
    using assms(1) by simp
  finally have lo: "pow2 (- 1022) \<le> real n / 100" .
  have "real n / 100 < 10 ^ 21 + 1"
    using assms(2,3) by simp
  also have "\<dots> < 2 ^ 1023"
    by simp
  finally have "real n / 100 < 2 ^ 1023" .
  with lo show thesis
    using that by (rule round64_finite)
qed

text \<open>
  Rounding to two decimals gives a finite value that rounds to itself, or negative
  zero, which rounds to zero.
\<close>

lemma round2_stable:
  assumes "isFinite x" "10 ^ 21 \<le> \<bar>val x\<bar> \<Longrightarrow> round64 (val x) = Fin (val x)"
    "round2 x \<noteq> NegZero"
  shows "isFinite (round2 x) \<and> round2 (round2 x) = round2 x"
proof (cases x)
  case NegZero
  then show ?thesis
    by (simp add: round2_NegZero isFinite_def round2_zero)
next
  case (Fin v)
  consider (large) "10 ^ 21 \<le> \<bar>v\<bar>" | (nonneg) "0 \<le> v" "v < 10 ^ 21" | (neg) "v < 0" "- v < 10 ^ 21"
    by linarith
  then show ?thesis
  proof cases
    case large
    with assms(2) have "round2 (Fin v) = Fin v"
      by (intro round2_large) (simp_all add: Fin)
    then show ?thesis
      by (simp add: Fin isFinite_def)
  next
    case nonneg
    define n where "n = nat \<lfloor>v * 100 + 1 / 2\<rfloor>"
    have r: "round2 (Fin v) = round64 (real n / 100)"
      unfolding n_def using nonneg by (rule round2_nonneg)
    show ?thesis
    proof (cases "n = 0")
      case True
      then show ?thesis
        by (simp add: Fin r round64_zero isFinite_def round2_zero)
    next
      case False
      then have n: "0 < n"
        by simp
      have "real n \<le> v * 100 + 1 / 2"
        using nonneg(1) unfolding n_def by (simp add: of_nat_nat; linarith)
      with n obtain y where y: "round64 (real n / 100) = Fin y"
        using nonneg(2) by (rule hundredths_finite)
      with hundredths_stable(1) [OF n y] show ?thesis
        by (simp add: Fin r isFinite_def)
    qed
  next
    case neg
    define n where "n = nat \<lfloor>- v * 100 + 1 / 2\<rfloor>"
    have r: "round2 (Fin v) = (if n = 0 then NegZero else round64 (- (real n / 100)))"
      unfolding n_def using neg by (rule round2_neg)
    with assms(3) have n: "0 < n"
      by (cases "n = 0") (simp_all add: Fin)
    have "real n \<le> - v * 100 + 1 / 2"
      using neg(1) unfolding n_def by (simp add: of_nat_nat; linarith)
    with n obtain y where y: "round64 (real n / 100) = Fin y" "0 < y"
      using neg(2) by (rule hundredths_finite)
    have "0 < real n / 100"
      using n by simp
    from round64_minus [OF y(1) this y(2)] hundredths_stable(2) [OF n y(1)] show ?thesis
      using n by (simp add: Fin r isFinite_def)
  qed
qed (insert assms(1), simp_all add: isFinite_def)

text \<open>
  A Number of the program is a binary64 value, one that \<open>round64\<close> returns for itself;
  the type \<open>number\<close> also holds the other reals, in which the exact result of an
  operation is written before it is rounded.
\<close>

fun binary64 :: "number \<Rightarrow> bool" where
  "binary64 (Fin v) = (round64 v = Fin v)"
| "binary64 _ = True"

text \<open>
  \<^verbatim>\<open>parseFloat(x.toFixed(2))\<close>, which the sanitizer applies to every amount and to the
  total, gives for a finite Number a finite Number that it leaves as it is; negative zero,
  which it gives for a Number between \<open>-0.005\<close> and \<open>0\<close>, it takes to zero.
\<close>

theorem two_decimals_stable:
  "binary64 x \<and> isFinite x \<longrightarrow>
     isFinite (round2 x) \<and>
     round2 (round2 x) = (if round2 x = NegZero then Fin 0 else round2 x)"
proof
  assume h: "binary64 x \<and> isFinite x"
  show "isFinite (round2 x) \<and>
     round2 (round2 x) = (if round2 x = NegZero then Fin 0 else round2 x)"
  proof (cases "round2 x = NegZero")
    case True
    then show ?thesis
      by (simp add: round2_NegZero isFinite_def)
  next
    case False
    have "round64 (val x) = Fin (val x)" if "10 ^ 21 \<le> \<bar>val x\<bar>"
      using h that by (cases x) simp_all
    with h have "isFinite (round2 x) \<and> round2 (round2 x) = round2 x"
      using False by (intro round2_stable) simp_all
    with False show ?thesis
      by simp
  qed
qed

lemma eighth_binary64: "binary64 (Fin (1 / 8))"
  by (simp add: js_eval cong: let_weak_cong)

lemma eighth_rounded: "round2 (Fin (1 / 8)) = Fin (1170935903116329 / 9007199254740992)"
  by (simp add: round2_def js_eval cong: let_weak_cong)

theorem two_decimals_stable_witness:
  "round2 (Fin (1 / 8)) = Fin (1170935903116329 / 9007199254740992) \<and>
   round2 (Fin (1170935903116329 / 9007199254740992)) = Fin (1170935903116329 / 9007199254740992)"
  using two_decimals_stable [of "Fin (1 / 8)"] eighth_binary64
  unfolding eighth_rounded by (simp add: isFinite_def)

section \<open>Sanitizing a sanitized result\<close>

text \<open>
  The result read as a raw input. A second pass leaves an item as it is when its
  description is not empty and its amount is finite and rounds to itself
  (\<open>stableItem\<close>); that the amounts of a result are such is proved below.
\<close>

definition itemToRaw :: "Item \<Rightarrow> jsval" where
  "itemToRaw it = JObj [(''description'', JStr (description it)), (''amount'', JNum (amount it))]"

definition toRaw :: "CalculationResult \<Rightarrow> jsval" where
  "toRaw r =
     JObj [(''items'', JArr (map itemToRaw (items r))), (''total'', JNum (total r)),
           (''category'', JStr (category r))]"

definition stableAmount :: "number \<Rightarrow> bool" where
  "stableAmount a \<longleftrightarrow> isFinite a \<and> round2 a = a"

definition stableItem :: "Item \<Rightarrow> bool" where
  "stableItem it \<longleftrightarrow> description it \<noteq> [] \<and> stableAmount (amount it)"

lemma dropWhile_id: "xs = [] \<or> \<not> P (hd xs) \<Longrightarrow> dropWhile P xs = xs"
  by (cases xs) auto

lemma trim_trim: "trim (trim s) = trim s"
proof -
  let ?P = isWhiteSpace
  define u where "u = dropWhile ?P s"
  define w where "w = dropWhile ?P (rev u)"
  have trim: "trim s = rev w"
    by (simp add: trim_def u_def w_def)
  have u_hd: "u = [] \<or> \<not> ?P (hd u)"
    unfolding u_def by (metis hd_dropWhile)
  have "rev u = takeWhile ?P (rev u) @ w"
    by (simp add: w_def)
  then have u_eq: "u = rev w @ rev (takeWhile ?P (rev u))"
    by (metis rev_append rev_rev_ident)
  have "rev w = [] \<or> \<not> ?P (hd (rev w))"
  proof (cases "rev w = []")
    case False
    with u_eq have "hd u = hd (rev w)" "u \<noteq> []"
      by (metis hd_append2, metis append_is_Nil_conv)
    with u_hd show ?thesis by simp
  qed simp
  then have 1: "dropWhile ?P (rev w) = rev w"
    by (rule dropWhile_id)
  have 2: "dropWhile ?P w = w"
    by (simp add: w_def)
  show ?thesis
    unfolding trim by (simp add: trim_def 1 2)
qed

lemma specItem_trimmed: "trim (description (specItem e)) = description (specItem e)"
  by (simp add: specItem_def trim_trim)

lemma itemToRaw_accepted: "accepted (itemToRaw it) \<longleftrightarrow> isFinite (amount it)"
  by (simp add: accepted_def itemToRaw_def specAmount_def)

lemma itemToRaw_stringable: "stringable (descriptionOf (itemToRaw it))"
  by (simp add: stringable_def descriptionOf_def itemToRaw_def orElse_def)

lemma specItem_itemToRaw:
  "stableItem it \<Longrightarrow> trim (description it) = description it \<Longrightarrow>
   specItem (itemToRaw it) = it"
  by (simp add: specItem_def itemToRaw_def descriptionOf_def orElse_def stringOf_def
      specAmount_def stableItem_def stableAmount_def)

lemma specItems_toRaw:
  "list_all stableItem its \<Longrightarrow> list_all (\<lambda>it. trim (description it) = description it) its \<Longrightarrow>
   map specItem (filter accepted (map itemToRaw its)) = its"
  by (induction its)
    (auto simp: itemToRaw_accepted specItem_itemToRaw stableItem_def stableAmount_def)

text \<open>A result whose items are such is sanitized to itself.\<close>

lemma sanitize_stable:
  "validateAndSanitizeScanResult rawResult = Inr r \<and> list_all stableItem (items r) \<and>
   category r \<noteq> [] \<longrightarrow>
     validateAndSanitizeScanResult (toRaw r) = Inr r"
proof
  assume h: "validateAndSanitizeScanResult rawResult = Inr r \<and> list_all stableItem (items r) \<and>
    category r \<noteq> []"
  then have obj: "rawResult \<noteq> JNull" "typeofObject rawResult"
    by (auto simp: validateAndSanitizeScanResult_def split: if_splits)
  with h have r: "r = \<lparr>total = specTotal (specItems rawResult),
                category = trim (stringOf (categoryOf rawResult)),
                items = specItems rawResult\<rparr>"
    by (auto simp: sanitize_spec split: if_splits)
  have r_items: "items r = specItems rawResult"
    using arg_cong [OF r, of items] by simp
  have r_category: "category r = trim (stringOf (categoryOf rawResult))"
    using arg_cong [OF r, of category] by simp
  have r_total: "total r = specTotal (specItems rawResult)"
    using arg_cong [OF r, of total] by simp
  have trimmed: "list_all (\<lambda>it. trim (description it) = description it) (items r)"
    by (simp add: r_items specItems_def list_all_iff specItem_trimmed)
  have cat: "trim (category r) = category r"
    by (simp add: r_category trim_trim)
  have tot: "total r = specTotal (items r)"
    by (simp add: r_total r_items)
  have raw_items: "rawItems (toRaw r) = map itemToRaw (items r)"
    by (simp add: rawItems_def toRaw_def)
  have "list_all (\<lambda>e. stringable (descriptionOf e)) (filter accepted (rawItems (toRaw r)))"
    by (auto simp: raw_items list_all_iff itemToRaw_stringable)
  moreover have "stringable (categoryOf (toRaw r))"
    by (simp add: categoryOf_def toRaw_def orElse_def stringable_def)
  ultimately have conv: "conversionsSucceed (toRaw r)"
    by (simp add: conversionsSucceed_def)
  have its: "specItems (toRaw r) = items r"
    using h trimmed by (simp add: specItems_def raw_items specItems_toRaw)
  have catr: "trim (stringOf (categoryOf (toRaw r))) = category r"
    using h cat by (simp add: categoryOf_def toRaw_def orElse_def stringOf_def)
  have "toRaw r \<noteq> JNull" "typeofObject (toRaw r)"
    by (simp_all add: toRaw_def)
  then have "validateAndSanitizeScanResult (toRaw r) =
      Inr \<lparr>total = specTotal (items r), category = category r, items = items r\<rparr>"
    using conv its catr by (simp add: sanitize_spec)
  then show "validateAndSanitizeScanResult (toRaw r) = Inr r"
    using tot by simp
qed

text \<open>
  \<open>parsed v\<close> says that the Numbers in \<open>v\<close> are binary64 values, as they are in every
  value that \<^verbatim>\<open>JSON.parse\<close> returns.
\<close>

fun parsed :: "jsval \<Rightarrow> bool" where
  "parsed (JNum x) = binary64 x"
| "parsed (JArr xs) = (\<forall>x \<in> set xs. parsed x)"
| "parsed (JObj kvs) = (\<forall>kv \<in> set kvs. parsed (snd kv))"
| "parsed _ = True"

text \<open>The amounts that the sanitizer stores round to themselves, negative zero apart.\<close>

lemma parsed_getProp: "parsed v \<Longrightarrow> parsed (getProp v key)"
proof (cases v)
  case (JObj kvs)
  assume "parsed v"
  show ?thesis
  proof (cases "map_of kvs key")
    case None
    then show ?thesis
      by (simp add: JObj)
  next
    case (Some x)
    then have "(key, x) \<in> set kvs"
      by (rule map_of_SomeD)
    with \<open>parsed v\<close> have "parsed (snd (key, x))"
      unfolding JObj parsed.simps by (rule bspec)
    then show ?thesis
      by (simp add: JObj Some)
  qed
qed simp_all

lemma parsed_rawItems: "parsed rawResult \<Longrightarrow> e \<in> set (rawItems rawResult) \<Longrightarrow> parsed e"
  using parsed_getProp [of rawResult "''items''"]
  by (cases "getProp rawResult ''items''") (auto simp: rawItems_def)

lemma parseFloat_rounded: "parseFloat s = Fin v \<Longrightarrow> v = 0 \<or> (\<exists>q. round64 q = Fin v)"
  by (auto simp: parseFloat_def Let_def signedInf_def signedZero_def
      split: option.splits if_splits)

lemma specAmount_binary64:
  assumes "parsed e" "specAmount (getProp e ''amount'') = Some x" "10 ^ 21 \<le> \<bar>val x\<bar>"
  shows "round64 (val x) = Fin (val x)"
proof (cases "getProp e ''amount''")
  case (JNum n)
  with assms(2) have "x = n"
    by (simp add: specAmount_def split: if_splits)
  moreover have "binary64 n"
    using parsed_getProp [OF assms(1), of "''amount''"] JNum by simp
  ultimately show ?thesis
    using assms(3) by (cases n) auto
next
  case (JStr str)
  with assms(2) obtain t where x: "x = parseFloat t"
    by (auto simp: specAmount_def split: if_splits)
  show ?thesis
  proof (cases x)
    case (Fin v)
    with assms(3) have v: "2 \<le> \<bar>v\<bar>"
      by simp
    then have "v \<noteq> 0"
      by auto
    with parseFloat_rounded [of t v] x Fin obtain q where "round64 q = Fin v"
      by auto
    then show ?thesis
      using v by (simp add: Fin round64_idem_large)
  qed (insert assms(3), simp_all)
qed (insert assms(2), simp_all add: specAmount_def)

lemma specItem_stable:
  assumes "parsed e" "accepted e" "description (specItem e) \<noteq> []" "amount (specItem e) \<noteq> NegZero"
  shows "stableItem (specItem e)"
proof -
  from assms(2) obtain x where x: "specAmount (getProp e ''amount'') = Some x"
    by (auto simp: accepted_def)
  then have "isFinite x"
    by (auto simp: specAmount_def split: jsval.splits if_splits)
  moreover have "round64 (val x) = Fin (val x)" if "10 ^ 21 \<le> \<bar>val x\<bar>"
    using assms(1) x that by (rule specAmount_binary64)
  moreover have "round2 x \<noteq> NegZero"
    using assms(4) by (simp add: specItem_def x)
  ultimately have "stableAmount (round2 x)"
    unfolding stableAmount_def by (rule round2_stable)
  then show ?thesis
    using assms(3) by (simp add: stableItem_def specItem_def x)
qed

text \<open>
  Claim C5, as amended. Where the sanitizer returns, for a parsed raw input, a result with
  a category that is not empty, descriptions that are not empty and no amount that is
  negative zero, it returns the same result for that result read as raw input.
\<close>

theorem sanitize_idempotent:
  "parsed rawResult \<and> validateAndSanitizeScanResult rawResult = Inr r \<and> category r \<noteq> [] \<and>
   list_all (\<lambda>it. description it \<noteq> [] \<and> amount it \<noteq> NegZero) (items r) \<longrightarrow>
     validateAndSanitizeScanResult (toRaw r) = Inr r"
proof
  assume h: "parsed rawResult \<and> validateAndSanitizeScanResult rawResult = Inr r \<and>
    category r \<noteq> [] \<and> list_all (\<lambda>it. description it \<noteq> [] \<and> amount it \<noteq> NegZero) (items r)"
  then have obj: "rawResult \<noteq> JNull" "typeofObject rawResult"
    by (auto simp: validateAndSanitizeScanResult_def split: if_splits)
  with h have r: "r = \<lparr>total = specTotal (specItems rawResult),
                category = trim (stringOf (categoryOf rawResult)),
                items = specItems rawResult\<rparr>"
    by (auto simp: sanitize_spec split: if_splits)
  have r_items: "items r = specItems rawResult"
    using arg_cong [OF r, of items] by simp
  have "stableItem it" if "it \<in> set (items r)" for it
  proof -
    from that obtain e where e: "e \<in> set (rawItems rawResult)" "accepted e" "it = specItem e"
      by (auto simp: r_items specItems_def)
    from h that have "description it \<noteq> []" "amount it \<noteq> NegZero"
      by (auto simp: list_all_iff)
    with e parsed_rawItems [of rawResult e] h show ?thesis
      by (simp add: specItem_stable)
  qed
  then have "list_all stableItem (items r)"
    by (simp add: list_all_iff)
  with h show "validateAndSanitizeScanResult (toRaw r) = Inr r"
    using sanitize_stable [of rawResult r] by simp
qed

definition blankDescription :: jsval where
  "blankDescription =
     JObj [(''items'', JArr [JObj [(''description'', JStr '' ''), (''amount'', JNum (Fin 1))]]),
           (''category'', JStr ''Groceries'')]"

definition blankCategory :: jsval where
  "blankCategory =
     JObj [(''items'', JArr [JObj [(''description'', JStr ''Milk''), (''amount'', JNum (Fin 1))]]),
           (''category'', JStr '' '')]"

definition smallNegative :: jsval where
  "smallNegative =
     JObj [(''items'',
            JArr [JObj [(''description'', JStr ''Refund''), (''amount'', JStr ''-0.001'')]]),
           (''category'', JStr ''Groceries'')]"

text \<open>
  Claim C5 as stated fails. A description of one blank is trimmed to the empty string by
  the first pass and replaced by the placeholder in the second, and so is a category of
  one blank. An amount between \<open>-0.005\<close> and \<open>0\<close> is stored as negative zero by the
  first pass, and the second stores zero.
\<close>

theorem sanitize_not_idempotent_counterexample:
  "validateAndSanitizeScanResult blankDescription =
     Inr \<lparr>total = Fin 1, category = ''Groceries'',
          items = [\<lparr>description = [], amount = Fin 1\<rparr>]\<rparr> \<and>
   validateAndSanitizeScanResult
     (toRaw \<lparr>total = Fin 1, category = ''Groceries'',
             items = [\<lparr>description = [], amount = Fin 1\<rparr>]\<rparr>) =
     Inr \<lparr>total = Fin 1, category = ''Groceries'',
          items = [\<lparr>description = ''Unnamed Item'', amount = Fin 1\<rparr>]\<rparr> \<and>
   validateAndSanitizeScanResult blankCategory =
     Inr \<lparr>total = Fin 1, category = [],
          items = [\<lparr>description = ''Milk'', amount = Fin 1\<rparr>]\<rparr> \<and>
   validateAndSanitizeScanResult
     (toRaw \<lparr>total = Fin 1, category = [],
             items = [\<lparr>description = ''Milk'', amount = Fin 1\<rparr>]\<rparr>) =
     Inr \<lparr>total = Fin 1, category = ''Uncategorized'',
          items = [\<lparr>description = ''Milk'', amount = Fin 1\<rparr>]\<rparr> \<and>
   validateAndSanitizeScanResult smallNegative =
     Inr \<lparr>total = Fin 0, category = ''Groceries'',
          items = [\<lparr>description = ''Refund'', amount = NegZero\<rparr>]\<rparr> \<and>
   validateAndSanitizeScanResult
     (toRaw \<lparr>total = Fin 0, category = ''Groceries'',
             items = [\<lparr>description = ''Refund'', amount = NegZero\<rparr>]\<rparr>) =
     Inr \<lparr>total = Fin 0, category = ''Groceries'',
          items = [\<lparr>description = ''Refund'', amount = Fin 0\<rparr>]\<rparr> \<and>
   parsed blankDescription \<and> parsed blankCategory \<and> parsed smallNegative"
proof (intro conjI)
  show "validateAndSanitizeScanResult smallNegative =
     Inr \<lparr>total = Fin 0, category = ''Groceries'',
          items = [\<lparr>description = ''Refund'', amount = NegZero\<rparr>]\<rparr>"
    by (simp add: smallNegative_def sanitize_eval js_eval cong: let_weak_cong)
  show "parsed blankDescription" "parsed blankCategory"
    by (simp_all add: blankDescription_def blankCategory_def js_eval cong: let_weak_cong)
  show "parsed smallNegative"
    by (simp add: smallNegative_def)
qed (simp_all add: blankDescription_def blankCategory_def toRaw_def itemToRaw_def sanitize_eval
    js_eval cong: let_weak_cong)

lemma milk_parsed: "parsed milkExample"
  by (simp add: milkExample_def)

theorem sanitize_idempotent_witness:
  "validateAndSanitizeScanResult
     (toRaw \<lparr>total = Fin (5 / 2), category = ''Groceries'',
             items = [\<lparr>description = ''Milk'', amount = Fin (5 / 2)\<rparr>]\<rparr>) =
   Inr \<lparr>total = Fin (5 / 2), category = ''Groceries'',
        items = [\<lparr>description = ''Milk'', amount = Fin (5 / 2)\<rparr>]\<rparr>"
  using sanitize_idempotent [of milkExample
      "\<lparr>total = Fin (5 / 2), category = ''Groceries'',
        items = [\<lparr>description = ''Milk'', amount = Fin (5 / 2)\<rparr>]\<rparr>"]
    milk_sanitized milk_parsed
  by simp

section \<open>Scan failures\<close>

text \<open>The exception that leaves the \<^verbatim>\<open>try\<close> block of \<^verbatim>\<open>processImage\<close>, if any.\<close>

definition scanFailure :: "string option \<Rightarrow> receiptOutcome \<Rightarrow> state \<Rightarrow> exn option" where
  "scanFailure readOutcome outcome s =
     (case processImageTry readOutcome outcome (s\<lparr>isLoading := True, error := None\<rparr>) of
        Inl (err, s1) \<Rightarrow> Some err
      | Inr s1 \<Rightarrow> None)"

text \<open>A scan whose image is read, whose response parses and is sanitized to \<open>r\<close>.\<close>

definition sanitizedTo :: "string option \<Rightarrow> receiptOutcome \<Rightarrow> CalculationResult \<Rightarrow> bool" where
  "sanitizedTo readOutcome outcome r \<longleftrightarrow>
     (case (readOutcome, outcome) of
        (Some dataUrl, Parsed rawResult) \<Rightarrow> validateAndSanitizeScanResult rawResult = Inr r
      | _ \<Rightarrow> False)"

lemma sanitize_errors:
  "e = Error ''Invalid response format from AI. Expected an object.'' \<or> e = primitiveError"
  if "validateAndSanitizeScanResult rawResult = Inl e"
proof (cases "rawResult = JNull \<or> \<not> typeofObject rawResult")
  case True
  then have "validateAndSanitizeScanResult rawResult =
      Inl (Error ''Invalid response format from AI. Expected an object.'')"
    by (simp add: format_error_iff)
  then show ?thesis
    using that by simp
next
  case False
  then show ?thesis
    using that by (simp add: sanitize_spec split: if_splits)
qed

lemma sanitize_error_other:
  "validateAndSanitizeScanResult rawResult = Inl e \<Longrightarrow> e \<noteq> noValidDataError"
  by (auto simp: noValidDataError_def primitiveError_def dest!: sanitize_errors)

lemma scanFailure_sanitized:
  "sanitizedTo readOutcome outcome r \<Longrightarrow>
   scanFailure readOutcome outcome s =
     (if items r = [] \<or> num_le (total r) (Fin 0) then Some noValidDataError else None)"
  by (auto simp: sanitizedTo_def scanFailure_def processImageTry_def readFileAsDataURL_def
      processReceipt_def Let_def split: option.splits receiptOutcome.splits)

lemma scanFailure_noValidData:
  "scanFailure readOutcome outcome s = Some noValidDataError \<Longrightarrow>
   \<exists>r. sanitizedTo readOutcome outcome r"
  by (auto simp: sanitizedTo_def scanFailure_def processImageTry_def readFileAsDataURL_def
      processReceipt_def noValidDataError_def Let_def
      split: option.splits receiptOutcome.splits sum.splits if_splits
      dest: sanitize_error_other [unfolded noValidDataError_def])

text \<open>
  Claim C4. A scan fails with the no-valid-data error exactly when its response is
  sanitized and the item list of the result is empty or its total is at most zero; a
  sanitized result of another kind does not fail. Every failure leaves the state as it
  was, history and staged result included, but for the message of the exception in
  \<open>error\<close>, the cleared image and the two flags; a scan that does not fail stages an
  editable result.
\<close>

theorem scan_failure:
  "(scanFailure readOutcome outcome s = Some noValidDataError \<longleftrightarrow>
      (\<exists>r. sanitizedTo readOutcome outcome r \<and> (items r = [] \<or> num_le (total r) (Fin 0)))) \<and>
   (sanitizedTo readOutcome outcome r \<and> items r \<noteq> [] \<and> \<not> num_le (total r) (Fin 0) \<longrightarrow>
      scanFailure readOutcome outcome s = None) \<and>
   (scanFailure readOutcome outcome s = Some err \<longrightarrow>
      processImage readOutcome outcome s =
        s\<lparr>isLoading := False, isScannerOpen := False, error := Some (message err),
          imageDataUrl := None\<rparr>) \<and>
   (scanFailure readOutcome outcome s = None \<longrightarrow>
      editableResult (processImage readOutcome outcome s) \<noteq> None)"
proof (intro conjI impI iffI)
  assume "scanFailure readOutcome outcome s = Some noValidDataError"
  then obtain r' where r': "sanitizedTo readOutcome outcome r'"
    using scanFailure_noValidData by blast
  with \<open>scanFailure readOutcome outcome s = Some noValidDataError\<close>
  have "items r' = [] \<or> num_le (total r') (Fin 0)"
    using scanFailure_sanitized [of readOutcome outcome r' s]
    by (simp split: if_splits)
  with r' show "\<exists>r. sanitizedTo readOutcome outcome r \<and> (items r = [] \<or> num_le (total r) (Fin 0))"
    by blast
next
  assume "\<exists>r. sanitizedTo readOutcome outcome r \<and> (items r = [] \<or> num_le (total r) (Fin 0))"
  then obtain r' where "sanitizedTo readOutcome outcome r'"
      and "items r' = [] \<or> num_le (total r') (Fin 0)"
    by blast
  then show "scanFailure readOutcome outcome s = Some noValidDataError"
    using scanFailure_sanitized [of readOutcome outcome r' s] by simp
next
  assume "sanitizedTo readOutcome outcome r \<and> items r \<noteq> [] \<and> \<not> num_le (total r) (Fin 0)"
  then show "scanFailure readOutcome outcome s = None"
    using scanFailure_sanitized [of readOutcome outcome r s] by simp
next
  assume "scanFailure readOutcome outcome s = Some err"
  then show "processImage readOutcome outcome s =
        s\<lparr>isLoading := False, isScannerOpen := False, error := Some (message err),
          imageDataUrl := None\<rparr>"
    by (auto simp: scanFailure_def processImage_def processImageTry_def Let_def
        split: sum.splits option.splits prod.splits if_splits)
next
  assume "scanFailure readOutcome outcome s = None"
  then show "editableResult (processImage readOutcome outcome s) \<noteq> None"
    by (auto simp: scanFailure_def processImage_def processImageTry_def Let_def
        split: sum.splits option.splits prod.splits if_splits)
qed

definition negativeExample :: jsval where
  "negativeExample =
     JObj [(''items'', JArr [JObj [(''description'', JStr ''A''), (''amount'', JNum (Fin (- 5)))]]),
           (''category'', JStr ''X'')]"

definition emptyExample :: jsval where
  "emptyExample = JObj [(''items'', JArr []), (''category'', JStr ''X'')]"

lemma negative_sanitized:
  "validateAndSanitizeScanResult negativeExample =
     Inr \<lparr>total = Fin (- 5), category = ''X'',
          items = [\<lparr>description = ''A'', amount = Fin (- 5)\<rparr>]\<rparr>"
  by (simp add: negativeExample_def sanitize_eval js_eval cong: let_weak_cong)

lemma empty_sanitized:
  "validateAndSanitizeScanResult emptyExample =
     Inr \<lparr>total = Fin 0, category = ''X'', items = []\<rparr>"
  by (simp add: emptyExample_def sanitize_eval js_eval cong: let_weak_cong)

theorem scan_failure_witness:
  "processImage (Some ''data:'') (Parsed negativeExample) initialState =
     initialState\<lparr>error :=
       Some ''Could not detect any valid line items or amounts on the receipt.''\<rparr> \<and>
   processImage (Some ''data:'') (Parsed emptyExample) initialState =
     initialState\<lparr>error :=
       Some ''Could not detect any valid line items or amounts on the receipt.''\<rparr>"
proof -
  have "sanitizedTo (Some ''data:'') (Parsed negativeExample)
      \<lparr>total = Fin (- 5), category = ''X'', items = [\<lparr>description = ''A'', amount = Fin (- 5)\<rparr>]\<rparr>"
    by (simp add: sanitizedTo_def negative_sanitized)
  then have 1: "scanFailure (Some ''data:'') (Parsed negativeExample) initialState =
      Some noValidDataError"
    using scan_failure [of "Some ''data:''" "Parsed negativeExample" initialState]
    by (auto simp: num_le_def isFinite_def)
  have "sanitizedTo (Some ''data:'') (Parsed emptyExample)
      \<lparr>total = Fin 0, category = ''X'', items = []\<rparr>"
    by (simp add: sanitizedTo_def empty_sanitized)
  then have 2: "scanFailure (Some ''data:'') (Parsed emptyExample) initialState =
      Some noValidDataError"
    using scan_failure [of "Some ''data:''" "Parsed emptyExample" initialState]
    by auto
  from 1 scan_failure [of "Some ''data:''" "Parsed negativeExample" initialState _ noValidDataError]
  have "processImage (Some ''data:'') (Parsed negativeExample) initialState =
     initialState\<lparr>error :=
       Some ''Could not detect any valid line items or amounts on the receipt.''\<rparr>"
    by (simp add: noValidDataError_def initialState_def)
  moreover
  from 2 scan_failure [of "Some ''data:''" "Parsed emptyExample" initialState _ noValidDataError]
  have "processImage (Some ''data:'') (Parsed emptyExample) initialState =
     initialState\<lparr>error :=
       Some ''Could not detect any valid line items or amounts on the receipt.''\<rparr>"
    by (simp add: noValidDataError_def initialState_def)
  ultimately show ?thesis
    by simp
qed

section \<open>Confirming a staged scan\<close>

definition clearStaging :: "state \<Rightarrow> state" where
  "clearStaging s =
     s\<lparr>isScanDetailsVisible := False, scanResult := None, editableResult := None,
       imageDataUrl := None\<rparr>"

text \<open>
  Claim C10. Confirming a staged result without items changes nothing but the staging
  cells, which it clears; every confirmation clears them.
\<close>

theorem confirm_empty_scan:
  "(editableResult s = Some er \<and> e_items er = [] \<longrightarrow>
      handleConfirmScan stamp s = clearStaging s) \<and>
   \<not> isScanDetailsVisible (handleConfirmScan stamp s) \<and>
   scanResult (handleConfirmScan stamp s) = None \<and>
   editableResult (handleConfirmScan stamp s) = None \<and>
   imageDataUrl (handleConfirmScan stamp s) = None"
  by (simp add: handleConfirmScan_def clearStaging_def addHistoryItem_def Let_def
      split: option.splits)

definition stagedEmpty :: state where
  "stagedEmpty =
     initialState\<lparr>displayValue := ''12'', previousValue := Some (Fin 3), operator := Some opPlus,
       waitingForOperand := False, calculationString := ''3 +'',
       editableResult := Some \<lparr>e_total = Fin 0, e_category = ''Food'', e_items = []\<rparr>,
       scanResult := Some \<lparr>total = Fin 0, category = ''Food'', items = []\<rparr>,
       isScanDetailsVisible := True, imageDataUrl := Some ''data:image/png;base64,AAAA''\<rparr>"

theorem confirm_empty_scan_witness:
  "handleConfirmScan (''id'', ''date'') stagedEmpty =
     initialState\<lparr>displayValue := ''12'', previousValue := Some (Fin 3), operator := Some opPlus,
       waitingForOperand := False, calculationString := ''3 +''\<rparr>"
  using confirm_empty_scan [of stagedEmpty "\<lparr>e_total = Fin 0, e_category = ''Food'', e_items = []\<rparr>"
      "(''id'', ''date'')"]
  by (simp add: stagedEmpty_def clearStaging_def initialState_def)

section \<open>The states that the inputs reach\<close>

text \<open>
  The handlers of the editable scan result: \<^verbatim>\<open>handleEditableResultUpdate\<close>,
  \<^verbatim>\<open>handleItemChange\<close>, \<^verbatim>\<open>handleAddItem\<close>, \<^verbatim>\<open>handleRemoveItem\<close> and
  \<^verbatim>\<open>handleCategoryChange\<close>. The screen shows an input for each item of the list, so
  the index of a change is one of the list.
\<close>

definition handleEditableResultUpdate :: "EditableScanResult \<Rightarrow> state \<Rightarrow> state" where
  "handleEditableResultUpdate updatedResult s =
     (let newTotal =
            foldl (\<lambda>sum item. num_add sum (parseSanitizedAmount (e_amount item))) (Fin 0)
              (e_items updatedResult)
      in s\<lparr>editableResult := Some (updatedResult\<lparr>e_total := parseFloat (toFixed2 newTotal)\<rparr>)\<rparr>)"

datatype itemField = DescriptionField | AmountField

definition handleItemChange :: "nat \<Rightarrow> itemField \<Rightarrow> string \<Rightarrow> state \<Rightarrow> state" where
  "handleItemChange index field v s =
     (case editableResult s of
        None \<Rightarrow> s
      | Some er \<Rightarrow>
          let old = e_items er ! index;
              newItems =
                (e_items er)[index := (case field of
                                         DescriptionField \<Rightarrow> old\<lparr>e_description := v\<rparr>
                                       | AmountField \<Rightarrow> old\<lparr>e_amount := v\<rparr>)]
          in handleEditableResultUpdate (er\<lparr>e_items := newItems\<rparr>) s)"

definition handleAddItem :: "state \<Rightarrow> state" where
  "handleAddItem s =
     (case editableResult s of
        None \<Rightarrow> s
      | Some er \<Rightarrow>
          handleEditableResultUpdate
            (er\<lparr>e_items := e_items er @ [\<lparr>e_description = [], e_amount = ''0.00''\<rparr>]\<rparr>) s)"

definition handleRemoveItem :: "nat \<Rightarrow> state \<Rightarrow> state" where
  "handleRemoveItem index s =
     (case editableResult s of
        None \<Rightarrow> s
      | Some er \<Rightarrow>
          handleEditableResultUpdate
            (er\<lparr>e_items := map snd (filter (\<lambda>(i, item). i \<noteq> index)
                                         (zip [0..<length (e_items er)] (e_items er)))\<rparr>) s)"

definition handleCategoryChange :: "string \<Rightarrow> state \<Rightarrow> state" where
  "handleCategoryChange v s =
     (case editableResult s of
        None \<Rightarrow> s
      | Some er \<Rightarrow> s\<lparr>editableResult := Some (er\<lparr>e_category := v\<rparr>)\<rparr>)"

text \<open>
  An event is one input on the screen: a key of the keypad, a scan, an edit of the staged
  result, its confirmation or its dismissal, a manual expense, or an operation on the
  categories. \<open>keypad\<close> are the keys that the buttons send. A state is reachable when
  events lead to it from the initial state.
\<close>

datatype event =
    Key key
  | Scan "string option" receiptOutcome
  | ConfirmScan
  | DiscardScan
  | ItemChange nat itemField string
  | AddItem
  | RemoveItem nat
  | CategoryChange string
  | CategoryInputBlur
  | AddExpense string string string
  | Category categoryOp

fun step :: "Math \<Rightarrow> string \<times> string \<Rightarrow> event \<Rightarrow> state \<Rightarrow> state" where
  "step M stamp (Key k) s = press M stamp k s"
| "step M stamp (Scan readOutcome outcome) s = processImage readOutcome outcome s"
| "step M stamp ConfirmScan s = handleConfirmScan stamp s"
| "step M stamp DiscardScan s = handleDiscardScan s"
| "step M stamp (ItemChange index field v) s = handleItemChange index field v s"
| "step M stamp AddItem s = handleAddItem s"
| "step M stamp (RemoveItem index) s = handleRemoveItem index s"
| "step M stamp (CategoryChange v) s = handleCategoryChange v s"
| "step M stamp CategoryInputBlur s = handleCategoryInputBlur s"
| "step M stamp (AddExpense expenseAmount expenseDescription expenseCategory) s =
     handleAddExpense stamp expenseAmount expenseDescription expenseCategory s"
| "step M stamp (Category op) s = applyOp op s"

definition keypad :: "key \<Rightarrow> bool" where
  "keypad k \<longleftrightarrow>
     (case k of
        Digit d \<Rightarrow> d \<in> set (map (\<lambda>c. [c]) ''0123456789'')
      | Operator op \<Rightarrow> op \<in> binaryOperators
      | Unary operation \<Rightarrow> operation \<in> unaryOperations
      | _ \<Rightarrow> True)"

definition offered :: "event \<Rightarrow> state \<Rightarrow> bool" where
  "offered ev s \<longleftrightarrow>
     (case ev of
        Key k \<Rightarrow> keypad k
      | ItemChange index field v \<Rightarrow>
          (case editableResult s of None \<Rightarrow> True | Some er \<Rightarrow> index < length (e_items er))
      | _ \<Rightarrow> True)"

inductive reachable :: "Math \<Rightarrow> state \<Rightarrow> bool" for M where
  initial: "reachable M initialState"
| step: "reachable M s \<Longrightarrow> offered ev s \<Longrightarrow> reachable M (step M stamp ev s)"

text \<open>
  The display holds \<^verbatim>\<open>Error\<close>, written by \<^verbatim>\<open>handleCalculationError\<close> with the rest
  of the error state, or digits, a point, a sign and what \<^verbatim>\<open>String\<close> prints for a
  Number, none of which has the letter \<^verbatim>\<open>r\<close>.
\<close>

lemma no_r_digits: "CHR ''r'' \<notin> set (natToString n)"
  using natToString_digits [of n] by auto

lemma set_take_drop: "x \<in> set (take n xs) \<Longrightarrow> x \<in> set xs" "x \<in> set (drop n xs) \<Longrightarrow> x \<in> set xs"
  by (auto dest: in_set_takeD in_set_dropD)

lemma no_r_formatNumber: "CHR ''r'' \<notin> set ds \<Longrightarrow> CHR ''r'' \<notin> set (formatNumber ds n)"
  by (auto simp: formatNumber_def Let_def no_r_digits dest: in_set_takeD in_set_dropD)

lemma no_r_numberToString: "CHR ''r'' \<notin> set (numberToString x)"
  by (cases x)
    (auto simp: numberToString_def positiveToString_def no_r_formatNumber no_r_digits
      split: prod.splits)

definition displayInv :: "state \<Rightarrow> bool" where
  "displayInv s \<longleftrightarrow> ErrorState s \<or> CHR ''r'' \<notin> set (displayValue s)"

lemma displayInv_not_error:
  "displayInv s \<Longrightarrow> displayValue s \<noteq> ''Error'' \<Longrightarrow> CHR ''r'' \<notin> set (displayValue s)"
  by (auto simp: displayInv_def ErrorState_def)

lemma displayInv_error: "displayInv (handleCalculationError s)"
  by (simp add: displayInv_def ErrorState_handleCalculationError)

lemma displayInv_number: "displayValue s' = numberToString x \<Longrightarrow> displayInv s'"
  by (simp add: displayInv_def no_r_numberToString)

lemma no_r_digit: "d \<in> set (map (\<lambda>c. [c]) ''0123456789'') \<Longrightarrow> CHR ''r'' \<notin> set d"
  by auto

lemma displayInv_inputDigit:
  "displayInv s \<Longrightarrow> d \<in> set (map (\<lambda>c. [c]) ''0123456789'') \<Longrightarrow> displayInv (inputDigit d s)"
  using no_r_digit [of d]
  by (auto simp: inputDigit_def displayInv_def ErrorState_def)

lemma displayInv_performOperation: "displayInv s \<Longrightarrow> displayInv (performOperation M op s)"
  by (auto simp: performOperation_def displayInv_def ErrorState_def handleCalculationError_def
      no_r_numberToString Let_def split: option.splits)

lemma displayInv_performUnaryOperation:
  "displayInv s \<Longrightarrow> displayInv (performUnaryOperation M operation s)"
  by (auto simp: performUnaryOperation_def displayInv_def ErrorState_def
      handleCalculationError_def no_r_numberToString split: option.splits)

lemma displayInv_handleEquals: "displayInv s \<Longrightarrow> displayInv (handleEquals M stamp s)"
  by (auto simp: handleEquals_def displayInv_def ErrorState_def handleCalculationError_def
      addHistoryItem_def no_r_numberToString Let_def split: option.splits)

lemma displayInv_simple:
  "displayInv s \<Longrightarrow> displayInv (inputDecimal s)"
  "displayInv s \<Longrightarrow> displayInv (inputConstant c s)"
  "displayInv s \<Longrightarrow> displayInv (toggleSign s)"
  "displayInv s \<Longrightarrow> displayInv (inputPercent s)"
  "displayInv s \<Longrightarrow> displayInv (backspace s)"
  "displayInv s \<Longrightarrow> displayInv (clearEntry s)"
  "displayInv (clearAll s)"
  by (auto simp: inputDecimal_def inputConstant_def toggleSign_def inputPercent_def
      backspace_def clearEntry_def clearAll_def displayInv_def ErrorState_def
      no_r_numberToString Let_def dest: in_set_butlastD)

lemma displayInv_press:
  "displayInv s \<Longrightarrow> keypad k \<Longrightarrow> displayInv (press M stamp k s)"
  by (cases k)
    (auto simp: keypad_def displayInv_inputDigit displayInv_performOperation
      displayInv_performUnaryOperation displayInv_handleEquals displayInv_simple
      simp del: set_map)

lemma engine_frame:
  "displayValue (processImage readOutcome outcome s) = displayValue s"
  "previousValue (processImage readOutcome outcome s) = previousValue s"
  "operator (processImage readOutcome outcome s) = operator s"
  "waitingForOperand (processImage readOutcome outcome s) = waitingForOperand s"
  "calculationString (processImage readOutcome outcome s) = calculationString s"
  by (auto simp: processImage_def processImageTry_def Let_def
      split: sum.splits prod.splits option.splits if_splits)

lemma displayInv_cong:
  "displayValue s' = displayValue s \<Longrightarrow> previousValue s' = previousValue s \<Longrightarrow>
   operator s' = operator s \<Longrightarrow> waitingForOperand s' = waitingForOperand s \<Longrightarrow>
   calculationString s' = calculationString s \<Longrightarrow> displayInv s \<Longrightarrow> displayInv s'"
  by (simp add: displayInv_def ErrorState_def)

lemma displayInv_step: "displayInv s \<Longrightarrow> offered ev s \<Longrightarrow> displayInv (step M stamp ev s)"
proof (cases ev)
  case (Key k)
  then show "displayInv s \<Longrightarrow> offered ev s \<Longrightarrow> displayInv (step M stamp ev s)"
    by (simp add: offered_def displayInv_press)
next
  case (Scan readOutcome outcome)
  then show "displayInv s \<Longrightarrow> offered ev s \<Longrightarrow> displayInv (step M stamp ev s)"
    by (auto intro: displayInv_cong [where s = s] simp: engine_frame)
next
  case ConfirmScan
  then show "displayInv s \<Longrightarrow> offered ev s \<Longrightarrow> displayInv (step M stamp ev s)"
    by (auto simp: handleConfirmScan_def displayInv_def ErrorState_def addHistoryItem_def
        no_r_numberToString Let_def split: option.splits)
next
  case DiscardScan
  then show "displayInv s \<Longrightarrow> offered ev s \<Longrightarrow> displayInv (step M stamp ev s)"
    by (simp add: handleDiscardScan_def displayInv_simple)
next
  case (Category op)
  then show "displayInv s \<Longrightarrow> offered ev s \<Longrightarrow> displayInv (step M stamp ev s)"
    by (cases op)
      (auto simp: displayInv_def ErrorState_def handleAddCategory_def handleRenameCategory_def
        handleDeleteCategory_def Let_def)
qed (auto simp: displayInv_def ErrorState_def handleItemChange_def handleAddItem_def
    handleRemoveItem_def handleCategoryChange_def handleCategoryInputBlur_def
    handleAddExpense_def handleEditableResultUpdate_def addHistoryItem_def Let_def
    split: option.splits)

text \<open>
  In every state that the events reach, the display shows \<^verbatim>\<open>Error\<close> exactly in the
  error state: the operand, the operator and the trace are cleared and an operand is
  awaited.
\<close>

theorem error_display_is_error_state:
  "reachable M s \<Longrightarrow> displayValue s = ''Error'' \<longleftrightarrow> ErrorState s"
proof -
  assume "reachable M s"
  then have "displayInv s"
  proof (induction rule: reachable.induct)
    case initial
    then show ?case by (simp add: displayInv_def initialState_def)
  next
    case (step s ev stamp)
    then show ?case by (simp add: displayInv_step)
  qed
  then show ?thesis
    by (auto simp: displayInv_def ErrorState_def)
qed

lemma division_reached:
  "reachable squareMath
     (step squareMath (''id'', ''date'') (Key Equals)
       (step squareMath (''id'', ''date'') (Key (Digit ''0''))
         (step squareMath (''id'', ''date'') (Key (Operator opDivide))
           (step squareMath (''id'', ''date'') (Key (Digit ''5'')) initialState))))"
  by (intro reachable.step reachable.initial)
    (simp_all add: offered_def keypad_def binaryOperators_def)

theorem error_display_is_error_state_witness:
  "displayValue
     (step squareMath (''id'', ''date'') (Key Equals)
       (step squareMath (''id'', ''date'') (Key (Digit ''0''))
         (step squareMath (''id'', ''date'') (Key (Operator opDivide))
           (step squareMath (''id'', ''date'') (Key (Digit ''5'')) initialState)))) = ''Error'' \<and>
   ErrorState
     (step squareMath (''id'', ''date'') (Key Equals)
       (step squareMath (''id'', ''date'') (Key (Digit ''0''))
         (step squareMath (''id'', ''date'') (Key (Operator opDivide))
           (step squareMath (''id'', ''date'') (Key (Digit ''5'')) initialState))))"
proof -
  have "displayValue
     (step squareMath (''id'', ''date'') (Key Equals)
       (step squareMath (''id'', ''date'') (Key (Digit ''0''))
         (step squareMath (''id'', ''date'') (Key (Operator opDivide))
           (step squareMath (''id'', ''date'') (Key (Digit ''5'')) initialState)))) = ''Error''"
    by (simp add: engine_eval js_eval cong: let_weak_cong)
  with error_display_is_error_state [OF division_reached] show ?thesis
    by simp
qed

end
